theory Spec2Isabelle
  imports Main "HOL-Library.Sublist"
begin

section \<open>JavaScript values, truthiness and thrown values\<close>

text \<open>
  The structural checks of \<^verbatim>\<open>variance-example.ts\<close> test properties with \<^verbatim>\<open>!item.id\<close>, so
  the checked properties range over JavaScript values and not only over the declared
  \<^verbatim>\<open>string\<close> and \<^verbatim>\<open>Date\<close>: a missing property reads as \<^verbatim>\<open>undefined\<close>. Numbers are
  kept to the integers and \<^verbatim>\<open>NaN\<close> (all that truthiness distinguishes), a \<^verbatim>\<open>Date\<close> object
  is its millisecond time stamp.
\<close>

datatype jsval =
    JUndefined
  | JNull
  | JBool bool
  | JNum int
  | JNaN
  | JStr string
  | JDate int

text \<open>\<^verbatim>\<open>!v\<close> is \<open>\<not> truthy v\<close>: the falsy values are \<^verbatim>\<open>undefined\<close>, \<^verbatim>\<open>null\<close>, \<^verbatim>\<open>false\<close>,
  \<^verbatim>\<open>0\<close>, \<^verbatim>\<open>NaN\<close> and the empty string; every object (a \<^verbatim>\<open>Date\<close> too) is truthy.\<close>

fun truthy :: "jsval \<Rightarrow> bool" where
  "truthy JUndefined = False"
| "truthy JNull = False"
| "truthy (JBool b) = b"
| "truthy (JNum n) = (n \<noteq> 0)"
| "truthy JNaN = False"
| "truthy (JStr s) = (s \<noteq> [])"
| "truthy (JDate t) = True"

text \<open>
  JavaScript throws any value. The handlers of \<^verbatim>\<open>process\<close> read
  \<^verbatim>\<open>(error as Error).message\<close>, so a thrown value is modelled by what that read does:
  \<open>ErrorObj m\<close> is a value whose \<^verbatim>\<open>message\<close> is the string \<open>m\<close>; \<open>Nullish\<close> is
  \<^verbatim>\<open>null\<close> or \<^verbatim>\<open>undefined\<close> (what \<^verbatim>\<open>throw null\<close> or \<^verbatim>\<open>Promise.reject()\<close> carry), on which
  the read itself raises a \<^verbatim>\<open>TypeError\<close>. A thrown value of another kind (a string, a
  number), whose \<^verbatim>\<open>message\<close> reads as \<^verbatim>\<open>undefined\<close>, is left out: the field
  \<^verbatim>\<open>ProcessingError.error\<close> is a \<^verbatim>\<open>string\<close>.
\<close>

datatype thrown = ErrorObj string | Nullish

text \<open>What that read raises, and so the only value \<^verbatim>\<open>process\<close> itself can raise: a
  \<^verbatim>\<open>TypeError\<close>. Its message text is the engine's and is not modelled.\<close>

datatype raised = TypeError

fun message :: "thrown \<Rightarrow> raised + string" where
  "message (ErrorObj m) = Inr m"
| "message Nullish = Inl TypeError"

text \<open>
  A computation that may throw and may read or change the world outside the pipeline (the
  clock, whatever a caller-supplied function touches): it takes the world and returns
  \<open>Inl\<close> the thrown value or \<open>Inr\<close> the result, with the new world. An awaited promise is
  run to its end at the \<^verbatim>\<open>await\<close>; a rejection is a throw there. Every call returns or
  throws: a rule whose promise never settles is not modelled. Items are values; a
  caller-supplied function changes the world, never an item in place.
\<close>

type_synonym ('a, 'w) eff = "'w \<Rightarrow> (thrown + 'a) \<times> 'w"

text \<open>\<^verbatim>\<open>for (const item of data) { ... }\<close> over an array: the body runs on each element in
  order, on the state the previous iteration left; a fault that leaves the body leaves the
  loop.\<close>

fun for_of ::
  "('a \<Rightarrow> 's \<Rightarrow> 'w \<Rightarrow> ('e + 's) \<times> 'w) \<Rightarrow> 'a list \<Rightarrow> 's \<Rightarrow> 'w \<Rightarrow> ('e + 's) \<times> 'w" where
  "for_of body [] acc w = (Inr acc, w)"
| "for_of body (itm # rest) acc w =
     (case body itm acc w of
        (Inl e, w') \<Rightarrow> (Inl e, w')
      | (Inr acc', w') \<Rightarrow> for_of body rest acc' w')"

section \<open>Strings\<close>

text \<open>\<^verbatim>\<open>xs.join(sep)\<close> on an array of strings.\<close>

fun join :: "string list \<Rightarrow> string \<Rightarrow> string" where
  "join [] sep = []"
| "join [x] sep = x"
| "join (x # y # ys) sep = x @ sep @ join (y # ys) sep"

text \<open>\<^verbatim>\<open>s.includes(t)\<close>: \<open>t\<close> occurs in \<open>s\<close> as a contiguous substring.\<close>

definition includes' :: "string \<Rightarrow> string \<Rightarrow> bool" where
  "includes' s t = sublist t s"

text \<open>A string is the list of the code units of the JavaScript string, each below 256
  (the characters of ASCII and Latin-1). On these \<^verbatim>\<open>toLowerCase\<close> maps A to Z and the
  letters from \<^verbatim>\<open>U+00C0\<close> to \<^verbatim>\<open>U+00DE\<close>, the multiplication sign \<^verbatim>\<open>U+00D7\<close> apart, to the
  letters 32 places further, and leaves every other character as it is. \<^verbatim>\<open>trim\<close> removes
  white space and line terminators at both ends: tab, line feed, vertical tab, form feed,
  carriage return, space and the no-break space \<^verbatim>\<open>U+00A0\<close>.\<close>

definition lower_char :: "char \<Rightarrow> char" where
  "lower_char c =
     (let n = (of_char c :: nat)
      in if (65 \<le> n \<and> n \<le> 90) \<or> (192 \<le> n \<and> n \<le> 222 \<and> n \<noteq> 215)
         then char_of (n + 32) else c)"

definition toLowerCase :: "string \<Rightarrow> string" where
  "toLowerCase s = map lower_char s"

definition is_space :: "char \<Rightarrow> bool" where
  "is_space c = (let n = (of_char c :: nat) in (9 \<le> n \<and> n \<le> 13) \<or> n = 32 \<or> n = 160)"

definition trim :: "string \<Rightarrow> string" where
  "trim s = rev (dropWhile is_space (rev (dropWhile is_space s)))"

section \<open>Data model\<close>

record Entity =
  id' :: jsval
  createdAt :: jsval
  updatedAt :: jsval

datatype role = admin | user

record User = Entity +
  email :: string
  name' :: string
  role :: role

record 'a ProcessingError =
  item :: 'a
  error :: string
  code :: string

record ProcessingSummary =
  total' :: nat
  successful :: nat
  failed :: nat
  duration :: int

record 'a ProcessingResult =
  processed :: "'a list"
  errors :: "'a ProcessingError list"
  summary :: ProcessingSummary

record ValidationResult =
  isValid :: bool
  errors :: "string list"

record ('a, 'w) BusinessRule =
  name :: string
  apply' :: "'a \<Rightarrow> ('a, 'w) eff"

text \<open>The two private fields of the class \<^verbatim>\<open>BaseDataProcessor<T extends Entity>\<close>; the item
  type \<^verbatim>\<open>T\<close> is any extension \<open>'m Entity_scheme\<close> of \<open>Entity\<close>.\<close>

record ('m, 'w) BaseDataProcessor =
  validator :: "'m Entity_scheme \<Rightarrow> (ValidationResult, 'w) eff"
  businessRules :: "('m Entity_scheme, 'w) BusinessRule list"

section \<open>BaseDataProcessor\<close>

text \<open>\<^verbatim>\<open>validate\<close>: the three structural checks, then the caller's validator, whose error
  strings are appended when its flag is false. A fault of the validator propagates.\<close>

definition validate ::
  "('m, 'w) BaseDataProcessor \<Rightarrow> 'm Entity_scheme \<Rightarrow> (ValidationResult, 'w) eff" where
  "validate this itm w =
     (let errors0 = [];
          errors1 = (if \<not> truthy (Entity.id' itm) then errors0 @ [''ID is required'']
                     else errors0);
          errors2 = (if \<not> truthy (createdAt itm) then errors1 @ [''Created date is required'']
                     else errors1);
          errors3 = (if \<not> truthy (updatedAt itm) then errors2 @ [''Updated date is required'']
                     else errors2)
      in case validator this itm w of
           (Inl e, w') \<Rightarrow> (Inl e, w')
         | (Inr customValidation, w') \<Rightarrow>
             (let errors4 = (if \<not> isValid customValidation
                             then errors3 @ ValidationResult.errors customValidation
                             else errors3)
              in (Inr \<lparr>isValid = (length errors4 = 0), ValidationResult.errors = errors4\<rparr>, w')))"

text \<open>The loop of \<^verbatim>\<open>applyBusinessRules\<close>: each rule is awaited on the value the previous one
  returned; the first rejection leaves the loop.\<close>

fun apply_rules ::
  "('a, 'w) BusinessRule list \<Rightarrow> 'a \<Rightarrow> ('a, 'w) eff" where
  "apply_rules [] processedItem w = (Inr processedItem, w)"
| "apply_rules (rule # rest) processedItem w =
     (case apply' rule processedItem w of
        (Inl e, w') \<Rightarrow> (Inl e, w')
      | (Inr next_item, w') \<Rightarrow> apply_rules rest next_item w')"

text \<open>The copy \<^verbatim>\<open>{ ...item }\<close> of a value is the value.\<close>

definition applyBusinessRules ::
  "('m, 'w) BaseDataProcessor \<Rightarrow> 'm Entity_scheme \<Rightarrow> ('m Entity_scheme, 'w) eff" where
  "applyBusinessRules this itm w = apply_rules (businessRules this) itm w"

text \<open>The \<^verbatim>\<open>catch\<close> block of both \<^verbatim>\<open>process\<close> functions: it reads the message of what was
  thrown and pushes a \<^verbatim>\<open>PROCESSING_ERROR\<close> entry. The read is outside any \<^verbatim>\<open>try\<close>, so when it
  raises, \<^verbatim>\<open>process\<close> does.\<close>

definition catch_block ::
  "'a \<Rightarrow> thrown \<Rightarrow> 'a list \<times> 'a ProcessingError list
     \<Rightarrow> 'w \<Rightarrow> (raised + 'a list \<times> 'a ProcessingError list) \<times> 'w" where
  "catch_block itm e acc w =
     (case message e of
        Inl type_error \<Rightarrow> (Inl type_error, w)
      | Inr m \<Rightarrow>
          (Inr (fst acc, snd acc @ [\<lparr>item = itm, error = m, code = ''PROCESSING_ERROR''\<rparr>]), w))"

text \<open>The body of the loop of \<^verbatim>\<open>BaseDataProcessor.process\<close> (its \<^verbatim>\<open>try\<close> statement) on the
  two accumulators \<open>(processed, errors)\<close>.\<close>

definition process_item ::
  "('m, 'w) BaseDataProcessor \<Rightarrow> 'm Entity_scheme
     \<Rightarrow> 'm Entity_scheme list \<times> 'm Entity_scheme ProcessingError list
     \<Rightarrow> 'w \<Rightarrow> (raised + 'm Entity_scheme list \<times> 'm Entity_scheme ProcessingError list) \<times> 'w"
  where
  "process_item this itm acc w =
     (case validate this itm w of
        (Inl e, w1) \<Rightarrow> catch_block itm e acc w1
      | (Inr validation, w1) \<Rightarrow>
          if \<not> isValid validation then
            (Inr (fst acc,
                  snd acc @ [\<lparr>item = itm,
                              error = join (ValidationResult.errors validation) '', '',
                              code = ''VALIDATION_ERROR''\<rparr>]), w1)
          else
            (case applyBusinessRules this itm w1 of
               (Inl e, w2) \<Rightarrow> catch_block itm e acc w2
             | (Inr processedItem, w2) \<Rightarrow> (Inr (fst acc @ [processedItem], snd acc), w2)))"

text \<open>\<^verbatim>\<open>Date.now()\<close> is the parameter \<open>now\<close>: it reads the clock of the world.\<close>

definition process ::
  "('w \<Rightarrow> int \<times> 'w) \<Rightarrow> ('m, 'w) BaseDataProcessor \<Rightarrow> 'm Entity_scheme list
     \<Rightarrow> 'w \<Rightarrow> (raised + 'm Entity_scheme ProcessingResult) \<times> 'w" where
  "process now this data' w =
     (case now w of
        (startTime, w0) \<Rightarrow>
          (case for_of (process_item this) data' ([], []) w0 of
             (Inl e, w1) \<Rightarrow> (Inl e, w1)
           | (Inr acc, w1) \<Rightarrow>
               (case now w1 of
                  (endTime, w2) \<Rightarrow>
                    (Inr \<lparr>processed = fst acc,
                          ProcessingResult.errors = snd acc,
                          summary = \<lparr>total' = length data',
                                     successful = length (fst acc),
                                     failed = length (snd acc),
                                     duration = endTime - startTime\<rparr>\<rparr>, w2))))"

text \<open>\<^verbatim>\<open>data.map(transformer)\<close>: \<^verbatim>\<open>Array.prototype.map\<close> calls the callback on the elements in
  order, each time with the element, its index and the array, and the first fault of the
  callback leaves the map. So a mapper has, after the item, the further arguments of the
  call: \<open>Some (index, array)\<close> when they are passed, \<open>None\<close> in a call \<^verbatim>\<open>f(item)\<close> with the item
  alone (a parameter not passed reads as \<^verbatim>\<open>undefined\<close>).\<close>

fun array_map_from ::
  "('a \<Rightarrow> (nat \<times> 'a list) option \<Rightarrow> ('u, 'w) eff) \<Rightarrow> 'a list \<Rightarrow> nat \<Rightarrow> 'a list
     \<Rightarrow> ('u list, 'w) eff" where
  "array_map_from f arr k [] w = (Inr [], w)"
| "array_map_from f arr k (x # xs) w =
     (case f x (Some (k, arr)) w of
        (Inl e, w1) \<Rightarrow> (Inl e, w1)
      | (Inr y, w1) \<Rightarrow>
          (case array_map_from f arr (Suc k) xs w1 of
             (Inl e, w2) \<Rightarrow> (Inl e, w2)
           | (Inr ys, w2) \<Rightarrow> (Inr (y # ys), w2)))"

definition array_map ::
  "('a \<Rightarrow> (nat \<times> 'a list) option \<Rightarrow> ('u, 'w) eff) \<Rightarrow> 'a list \<Rightarrow> ('u list, 'w) eff" where
  "array_map f arr w = array_map_from f arr 0 arr w"

definition transform ::
  "('m, 'w) BaseDataProcessor \<Rightarrow> 'm Entity_scheme list
     \<Rightarrow> ('m Entity_scheme \<Rightarrow> (nat \<times> 'm Entity_scheme list) option \<Rightarrow> ('u, 'w) eff)
     \<Rightarrow> ('u list, 'w) eff" where
  "transform this data' transformer w = array_map transformer data' w"

section \<open>UserProcessor\<close>

text \<open>The subclass is the base class with this validator and these two rules.
  \<^verbatim>\<open>ProductProcessor\<close> (whose rule rounds a floating point price) and what
  \<^verbatim>\<open>ProcessorFactory.createProcessor\<close> returns are \<^verbatim>\<open>BaseDataProcessor\<close> objects too, so
  whatever holds of every \<open>BaseDataProcessor\<close> record holds of them.\<close>

definition normalizeEmail :: "('m User_scheme, 'w) BusinessRule" where
  "normalizeEmail =
     \<lparr>name = ''normalizeEmail'',
      apply' = (\<lambda>u w. (Inr (u\<lparr>email := trim (toLowerCase (email u))\<rparr>), w))\<rparr>"

text \<open>\<^verbatim>\<open>new Date()\<close> reads the same clock as \<^verbatim>\<open>Date.now()\<close>.\<close>

definition updateTimestamp :: "('w \<Rightarrow> int \<times> 'w) \<Rightarrow> ('m User_scheme, 'w) BusinessRule" where
  "updateTimestamp now =
     \<lparr>name = ''updateTimestamp'',
      apply' = (\<lambda>u w. case now w of (t, w') \<Rightarrow> (Inr (u\<lparr>updatedAt := JDate t\<rparr>), w'))\<rparr>"

definition UserProcessor :: "('w \<Rightarrow> int \<times> 'w) \<Rightarrow> ('m User_ext, 'w) BaseDataProcessor" where
  "UserProcessor now =
     \<lparr>validator = (\<lambda>u w.
        (Inr \<lparr>isValid = (includes' (email u) ''@'' \<and> length (name' u) > 0),
              ValidationResult.errors =
                (if includes' (email u) ''@'' then [] else [''Invalid email format'']) @
                (if length (name' u) > 0 then [] else [''Name is required''])\<rparr>, w)),
      businessRules = [normalizeEmail, updateTimestamp now]\<rparr>"

section \<open>Event processors\<close>

text \<open>The three functions of the object that \<^verbatim>\<open>createEventProcessor(validator)\<close> returns, each
  with the \<^verbatim>\<open>validator\<close> argument they close over.\<close>

record BaseEvent =
  id' :: jsval
  eventType :: jsval

record userLoginEvent = BaseEvent +
  userId :: jsval
  timestamp :: jsval

text \<open>The body of the loop of the \<^verbatim>\<open>process\<close> that \<^verbatim>\<open>createEventProcessor\<close> returns: it
  calls the \<^verbatim>\<open>validator\<close> argument itself and pushes the item unchanged.\<close>

definition event_process_item ::
  "('a \<Rightarrow> (ValidationResult, 'w) eff) \<Rightarrow> 'a
     \<Rightarrow> 'a list \<times> 'a ProcessingError list
     \<Rightarrow> 'w \<Rightarrow> (raised + 'a list \<times> 'a ProcessingError list) \<times> 'w" where
  "event_process_item validator' itm acc w =
     (case validator' itm w of
        (Inl e, w1) \<Rightarrow> catch_block itm e acc w1
      | (Inr validation, w1) \<Rightarrow>
          if \<not> isValid validation then
            (Inr (fst acc,
                  snd acc @ [\<lparr>item = itm,
                              error = join (ValidationResult.errors validation) '', '',
                              code = ''VALIDATION_ERROR''\<rparr>]), w1)
          else
            (let processedItem = itm
             in (Inr (fst acc @ [processedItem], snd acc), w1)))"

definition event_process ::
  "('w \<Rightarrow> int \<times> 'w) \<Rightarrow> ('a \<Rightarrow> (ValidationResult, 'w) eff) \<Rightarrow> 'a list
     \<Rightarrow> 'w \<Rightarrow> (raised + 'a ProcessingResult) \<times> 'w" where
  "event_process now validator' data' w =
     (case now w of
        (startTime, w0) \<Rightarrow>
          (case for_of (event_process_item validator') data' ([], []) w0 of
             (Inl e, w1) \<Rightarrow> (Inl e, w1)
           | (Inr acc, w1) \<Rightarrow>
               (case now w1 of
                  (endTime, w2) \<Rightarrow>
                    (Inr \<lparr>processed = fst acc,
                          ProcessingResult.errors = snd acc,
                          summary = \<lparr>total' = length data',
                                     successful = length (fst acc),
                                     failed = length (snd acc),
                                     duration = endTime - startTime\<rparr>\<rparr>, w2))))"

definition event_validate ::
  "('m BaseEvent_scheme \<Rightarrow> (ValidationResult, 'w) eff) \<Rightarrow> 'm BaseEvent_scheme
     \<Rightarrow> (ValidationResult, 'w) eff" where
  "event_validate validator' itm w =
     (let errors0 = [];
          errors1 = (if \<not> truthy (BaseEvent.id' itm) then errors0 @ [''ID is required'']
                     else errors0);
          errors2 = (if \<not> truthy (eventType itm) then errors1 @ [''Event type is required'']
                     else errors1)
      in case validator' itm w of
           (Inl e, w') \<Rightarrow> (Inl e, w')
         | (Inr customValidation, w') \<Rightarrow>
             (let errors3 = (if \<not> isValid customValidation
                             then errors2 @ ValidationResult.errors customValidation
                             else errors2)
              in (Inr \<lparr>isValid = (length errors3 = 0), ValidationResult.errors = errors3\<rparr>, w')))"

definition event_transform ::
  "'a list \<Rightarrow> ('a \<Rightarrow> (nat \<times> 'a list) option \<Rightarrow> ('u, 'w) eff) \<Rightarrow> ('u list, 'w) eff" where
  "event_transform data' transformer w = array_map transformer data' w"

definition userLoginValidator :: "'m userLoginEvent_scheme \<Rightarrow> (ValidationResult, 'w) eff" where
  "userLoginValidator event w =
     (let errors0 = [];
          errors1 = (if \<not> truthy (userId event) then errors0 @ [''User ID is required'']
                     else errors0);
          errors2 = (if \<not> truthy (timestamp event) then errors1 @ [''Timestamp is required'']
                     else errors1)
      in (Inr \<lparr>isValid = (length errors2 = 0), ValidationResult.errors = errors2\<rparr>, w))"

text \<open>The validator given to \<^verbatim>\<open>createEventProcessor\<close> for \<^verbatim>\<open>genericEventProcessor\<close>.\<close>

definition genericEventValidator :: "'m BaseEvent_scheme \<Rightarrow> (ValidationResult, 'w) eff" where
  "genericEventValidator event w =
     (Inr \<lparr>isValid = (truthy (BaseEvent.id' event) \<and> truthy (eventType event)),
           ValidationResult.errors = []\<rparr>, w)"

section \<open>Example inputs\<close>

text \<open>A world that is only a clock: every reading takes one millisecond.\<close>

definition tick :: "int \<Rightarrow> int \<times> int" where
  "tick w = (w, w + 1)"

text \<open>The two users and the two login events of \<^verbatim>\<open>demonstrateGenericProcessing\<close>, created at
  time 0, and what the pipelines return for them when started at time 100.\<close>

definition users :: "User list" where
  "users =
     [\<lparr>Entity.id' = JStr ''user1'', createdAt = JDate 0, updatedAt = JDate 0,
       email = ''JOHN@EXAMPLE.COM'', name' = ''John Doe'', role = user\<rparr>,
      \<lparr>Entity.id' = JStr ''user2'', createdAt = JDate 0, updatedAt = JDate 0,
       email = ''invalid-email'', name' = '''', role = admin\<rparr>]"

definition loginEvents :: "userLoginEvent list" where
  "loginEvents =
     [\<lparr>BaseEvent.id' = JStr ''1'', eventType = JStr ''userLogin'',
       userId = JStr ''user1'', timestamp = JDate 0\<rparr>,
      \<lparr>BaseEvent.id' = JStr ''2'', eventType = JStr ''userLogin'',
       userId = JStr '''', timestamp = JDate 0\<rparr>]"

definition users_result :: "User ProcessingResult" where
  "users_result =
     \<lparr>processed = [(users ! 0)\<lparr>email := ''john@example.com'', updatedAt := JDate 101\<rparr>],
      ProcessingResult.errors =
        [\<lparr>item = users ! 1, error = ''Invalid email format, Name is required'',
          code = ''VALIDATION_ERROR''\<rparr>],
      summary = \<lparr>total' = 2, successful = 1, failed = 1, duration = 2\<rparr>\<rparr>"

definition loginEvents_result :: "userLoginEvent ProcessingResult" where
  "loginEvents_result =
     \<lparr>processed = [loginEvents ! 0],
      ProcessingResult.errors =
        [\<lparr>item = loginEvents ! 1, error = ''User ID is required'', code = ''VALIDATION_ERROR''\<rparr>],
      summary = \<lparr>total' = 2, successful = 1, failed = 1, duration = 1\<rparr>\<rparr>"

text \<open>A validator that throws an \<^verbatim>\<open>Error\<close> on every item, and a processor with it and with
  no rule.\<close>

definition failing_validator :: "'a \<Rightarrow> (ValidationResult, int) eff" where
  "failing_validator x w = (Inl (ErrorObj ''validator failed''), w)"

definition failing_processor :: "(unit User_ext, int) BaseDataProcessor" where
  "failing_processor = \<lparr>validator = failing_validator, businessRules = []\<rparr>"

text \<open>A rule that rejects with no reason (\<^verbatim>\<open>Promise.reject()\<close>), behind the validator that
  \<^verbatim>\<open>ProcessorFactory\<close> falls back to, and a validator that throws \<^verbatim>\<open>null\<close>.\<close>

definition rejecting_rule :: "('a, int) BusinessRule" where
  "rejecting_rule = \<lparr>name = ''reject'', apply' = (\<lambda>x w. (Inl Nullish, w))\<rparr>"

definition rejecting_processor :: "(unit User_ext, int) BaseDataProcessor" where
  "rejecting_processor =
     \<lparr>validator = (\<lambda>x w. (Inr \<lparr>isValid = True, ValidationResult.errors = []\<rparr>, w)),
      businessRules = [rejecting_rule]\<rparr>"

definition rejecting_validator :: "'a \<Rightarrow> (ValidationResult, int) eff" where
  "rejecting_validator x w = (Inl Nullish, w)"

text \<open>What the pipelines with the throwing validator return.\<close>

definition failing_users_result :: "User ProcessingResult" where
  "failing_users_result =
     \<lparr>processed = [],
      ProcessingResult.errors =
        [\<lparr>item = users ! 0, error = ''validator failed'', code = ''PROCESSING_ERROR''\<rparr>,
         \<lparr>item = users ! 1, error = ''validator failed'', code = ''PROCESSING_ERROR''\<rparr>],
      summary = \<lparr>total' = 2, successful = 0, failed = 2, duration = 1\<rparr>\<rparr>"

definition failing_events_result :: "userLoginEvent ProcessingResult" where
  "failing_events_result =
     \<lparr>processed = [],
      ProcessingResult.errors =
        [\<lparr>item = loginEvents ! 0, error = ''validator failed'', code = ''PROCESSING_ERROR''\<rparr>,
         \<lparr>item = loginEvents ! 1, error = ''validator failed'', code = ''PROCESSING_ERROR''\<rparr>],
      summary = \<lparr>total' = 2, successful = 0, failed = 2, duration = 1\<rparr>\<rparr>"

text \<open>A login event whose identifier is the empty string.\<close>

definition loginEvent_noId :: userLoginEvent where
  "loginEvent_noId =
     \<lparr>BaseEvent.id' = JStr '''', eventType = JStr ''userLogin'',
      userId = JStr ''user1'', timestamp = JDate 0\<rparr>"

text \<open>Three mappers for \<^verbatim>\<open>transform\<close>: the summary of \<^verbatim>\<open>demonstrateGenericProcessing\<close>, one
  that takes a millisecond per item and throws on an administrator, and
  \<^verbatim>\<open>(item, index?) => index\<close>, which returns its second parameter.\<close>

definition userSummary ::
  "User \<Rightarrow> (nat \<times> User list) option \<Rightarrow> (jsval \<times> string \<times> bool, int) eff" where
  "userSummary u extra w = (Inr (Entity.id' u, name' u, role u = admin), w)"

definition throwing_mapper :: "User \<Rightarrow> (nat \<times> User list) option \<Rightarrow> (string, int) eff" where
  "throwing_mapper u extra w =
     (if role u = admin then (Inl (ErrorObj ''no summary for an admin''), w + 1)
      else (Inr (name' u), w + 1))"

definition index_mapper :: "'a \<Rightarrow> (nat \<times> 'a list) option \<Rightarrow> (nat option, int) eff" where
  "index_mapper x extra w = (Inr (map_option fst extra), w)"

text \<open>A validator that answers invalid with no error string, and the processor that
  \<^verbatim>\<open>ProcessorFactory\<close> falls back to (every item valid, no rule).\<close>

definition silent_validator :: "'a \<Rightarrow> (ValidationResult, int) eff" where
  "silent_validator x w = (Inr \<lparr>isValid = False, ValidationResult.errors = []\<rparr>, w)"

definition silent_processor :: "(unit User_ext, int) BaseDataProcessor" where
  "silent_processor = \<lparr>validator = silent_validator, businessRules = []\<rparr>"

definition accepting_processor :: "(unit User_ext, int) BaseDataProcessor" where
  "accepting_processor =
     \<lparr>validator = (\<lambda>x w. (Inr \<lparr>isValid = True, ValidationResult.errors = []\<rparr>, w)),
      businessRules = []\<rparr>"

text \<open>The first user with an email in mixed case (with the capital letters E acute and
  thorn, the multiplication sign and the sharp s in it), with a no-break space, a space, a
  tab and a vertical tab in front and a form feed, a carriage return, a space and a line
  feed behind.\<close>

definition user_padded :: User where
  "user_padded =
     (users ! 0)\<lparr>email := [CHR 0xA0, CHR 0x20, CHR 0x09, CHR 0x0B] @ ''JOHN.Z[A]@'' @
        [CHR 0xC9, CHR 0xD7, CHR 0xDE, CHR 0xDF] @ ''xample.COM'' @
        [CHR 0x0C, CHR 0x0D, CHR 0x20, CHR 0x0A]\<rparr>"

text \<open>The first user with the empty string as identifier, the first login event with no
  event type.\<close>

definition user_emptyId :: User where
  "user_emptyId = (users ! 0)\<lparr>Entity.id' := JStr ''''\<rparr>"

definition loginEvent_noType :: userLoginEvent where
  "loginEvent_noType = (loginEvents ! 0)\<lparr>eventType := JUndefined\<rparr>"

section \<open>The loop and its body\<close>

lemma catch_block_ErrorObj:
  "catch_block x (ErrorObj m) acc w =
     (Inr (fst acc, snd acc @ [\<lparr>item = x, error = m, code = ''PROCESSING_ERROR''\<rparr>]), w)"
  by (simp add: catch_block_def)

lemma catch_block_Nullish: "catch_block x Nullish acc w = (Inl TypeError, w)"
  by (simp add: catch_block_def)

lemma catch_block_Inr:
  "catch_block x t acc w = (Inr acc', w') \<longleftrightarrow>
     (\<exists>m. t = ErrorObj m \<and> w' = w \<and>
          acc' = (fst acc, snd acc @ [\<lparr>item = x, error = m, code = ''PROCESSING_ERROR''\<rparr>]))"
  by (cases t) (auto simp: catch_block_def)

lemma catch_block_Inl:
  "catch_block x t acc w = (Inl e, w') \<longleftrightarrow> (t = Nullish \<and> e = TypeError \<and> w' = w)"
  by (cases t) (auto simp: catch_block_def)

text \<open>What one iteration does when it completes: exactly one push.\<close>

lemma process_item_Inr:
  "process_item P x acc w = (Inr acc', w') \<longleftrightarrow>
     (\<exists>m. validate P x w = (Inl (ErrorObj m), w') \<and>
          acc' = (fst acc, snd acc @ [\<lparr>item = x, error = m, code = ''PROCESSING_ERROR''\<rparr>])) \<or>
     (\<exists>v. validate P x w = (Inr v, w') \<and> \<not> isValid v \<and>
          acc' = (fst acc, snd acc @ [\<lparr>item = x, error = join (ValidationResult.errors v) '', '',
                                       code = ''VALIDATION_ERROR''\<rparr>])) \<or>
     (\<exists>v w1 m. validate P x w = (Inr v, w1) \<and> isValid v \<and>
          applyBusinessRules P x w1 = (Inl (ErrorObj m), w') \<and>
          acc' = (fst acc, snd acc @ [\<lparr>item = x, error = m, code = ''PROCESSING_ERROR''\<rparr>])) \<or>
     (\<exists>v w1 p. validate P x w = (Inr v, w1) \<and> isValid v \<and>
          applyBusinessRules P x w1 = (Inr p, w') \<and> acc' = (fst acc @ [p], snd acc))"
  unfolding process_item_def
  by (auto simp: catch_block_Inr split: prod.splits sum.splits if_splits)

lemma process_item_Inl:
  "process_item P x acc w = (Inl e, w') \<longleftrightarrow>
     e = TypeError \<and>
     (validate P x w = (Inl Nullish, w') \<or>
      (\<exists>v w1. validate P x w = (Inr v, w1) \<and> isValid v \<and>
          applyBusinessRules P x w1 = (Inl Nullish, w')))"
  unfolding process_item_def
  by (auto simp: catch_block_Inl split: prod.splits sum.splits if_splits)

lemma for_of_Cons_Inr:
  "for_of body (x # xs) acc w = (Inr acc', w') \<longleftrightarrow>
     (\<exists>acc1 w1. body x acc w = (Inr acc1, w1) \<and> for_of body xs acc1 w1 = (Inr acc', w'))"
  by (auto split: prod.splits sum.splits)

lemma for_of_trace:
  assumes step: "\<And>x acc w acc' w'. body x acc w = (Inr acc', w') \<Longrightarrow>
     \<exists>out. R x w out w' \<and>
       acc' = (fst acc @ map projr (filter (\<lambda>z. \<not> isl z) [out]),
               snd acc @ map projl (filter isl [out]))"
    and run: "for_of body xs acc w = (Inr acc', w')"
  shows "\<exists>os ws. length os = length xs \<and> length ws = Suc (length xs) \<and>
           ws ! 0 = w \<and> ws ! length xs = w' \<and>
           fst acc' = fst acc @ map projr (filter (\<lambda>z. \<not> isl z) os) \<and>
           snd acc' = snd acc @ map projl (filter isl os) \<and>
           (\<forall>i<length xs. R (xs ! i) (ws ! i) (os ! i) (ws ! Suc i))"
  using run
proof (induction xs arbitrary: acc w)
  case Nil
  then have "acc' = acc" "w' = w" by simp_all
  then show ?case
    by (intro exI [of _ "[]"] exI [of _ "[w]"]) simp
next
  case (Cons x xs)
  from Cons.prems obtain acc1 w1 where
    b: "body x acc w = (Inr acc1, w1)" and r: "for_of body xs acc1 w1 = (Inr acc', w')"
    unfolding for_of_Cons_Inr by blast
  from step [OF b] obtain out where
    R0: "R x w out w1" and
    a1: "acc1 = (fst acc @ map projr (filter (\<lambda>z. \<not> isl z) [out]),
                 snd acc @ map projl (filter isl [out]))"
    by blast
  from Cons.IH [OF r] obtain os ws where
    l: "length os = length xs" "length ws = Suc (length xs)" and
    e: "ws ! 0 = w1" "ws ! length xs = w'" and
    f: "fst acc' = fst acc1 @ map projr (filter (\<lambda>z. \<not> isl z) os)" and
    s: "snd acc' = snd acc1 @ map projl (filter isl os)" and
    Rs: "\<forall>i<length xs. R (xs ! i) (ws ! i) (os ! i) (ws ! Suc i)"
    by blast
  have "\<forall>i<length (x # xs). R ((x # xs) ! i) ((w # ws) ! i) ((out # os) ! i) ((w # ws) ! Suc i)"
  proof (intro allI impI)
    fix i assume "i < length (x # xs)"
    then show "R ((x # xs) ! i) ((w # ws) ! i) ((out # os) ! i) ((w # ws) ! Suc i)"
      using R0 e(1) Rs by (cases i) simp_all
  qed
  moreover have "fst acc' = fst acc @ map projr (filter (\<lambda>z. \<not> isl z) (out # os))"
    using f a1 by simp
  moreover have "snd acc' = snd acc @ map projl (filter isl (out # os))"
    using s a1 by simp
  moreover have "length (out # os) = length (x # xs)" "length (w # ws) = Suc (length (x # xs))"
    "(w # ws) ! 0 = w" "(w # ws) ! length (x # xs) = w'"
    using l e by simp_all
  ultimately show ?case by blast
qed

lemma process_item_fresh:
  assumes "process_item P x acc w = (Inr acc', w')"
  shows "\<exists>out. process_item P x ([], []) w =
             (Inr (map projr (filter (\<lambda>z. \<not> isl z) [out]), map projl (filter isl [out])), w') \<and>
           acc' = (fst acc @ map projr (filter (\<lambda>z. \<not> isl z) [out]),
                   snd acc @ map projl (filter isl [out]))"
proof -
  from assms consider
    (a) m where "validate P x w = (Inl (ErrorObj m), w')"
      "acc' = (fst acc, snd acc @ [\<lparr>item = x, error = m, code = ''PROCESSING_ERROR''\<rparr>])"
  | (b) v where "validate P x w = (Inr v, w')" "\<not> isValid v"
      "acc' = (fst acc, snd acc @ [\<lparr>item = x, error = join (ValidationResult.errors v) '', '',
                                       code = ''VALIDATION_ERROR''\<rparr>])"
  | (c) v w1 m where "validate P x w = (Inr v, w1)" "isValid v"
      "applyBusinessRules P x w1 = (Inl (ErrorObj m), w')"
      "acc' = (fst acc, snd acc @ [\<lparr>item = x, error = m, code = ''PROCESSING_ERROR''\<rparr>])"
  | (d) v w1 p where "validate P x w = (Inr v, w1)" "isValid v"
      "applyBusinessRules P x w1 = (Inr p, w')" "acc' = (fst acc @ [p], snd acc)"
    unfolding process_item_Inr by blast
  then show ?thesis
  proof cases
    case a
    then show ?thesis
      by (intro exI [of _ "Inl \<lparr>item = x, error = m, code = ''PROCESSING_ERROR''\<rparr>"])
         (simp add: process_item_Inr)
  next
    case b
    then show ?thesis
      by (intro exI [of _ "Inl \<lparr>item = x, error = join (ValidationResult.errors v) '', '',
                                 code = ''VALIDATION_ERROR''\<rparr>"])
         (simp add: process_item_Inr)
  next
    case c
    then show ?thesis
      by (intro exI [of _ "Inl \<lparr>item = x, error = m, code = ''PROCESSING_ERROR''\<rparr>"])
         (simp add: process_item_Inr)
  next
    case d
    then show ?thesis
      by (intro exI [of _ "Inr p"]) (simp add: process_item_Inr)
  qed
qed

lemma process_Inr:
  "process now P xs w = (Inr r, w') \<longleftrightarrow>
     (\<exists>acc w1. for_of (process_item P) xs ([], []) (snd (now w)) = (Inr acc, w1) \<and>
        w' = snd (now w1) \<and>
        r = \<lparr>processed = fst acc, ProcessingResult.errors = snd acc,
             summary = \<lparr>total' = length xs, successful = length (fst acc),
                        failed = length (snd acc),
                        duration = fst (now w1) - fst (now w)\<rparr>\<rparr>)"
  unfolding process_def by (auto split: prod.splits sum.splits)

lemma process_trace:
  assumes "process now P xs w = (Inr r, w')"
  shows "\<exists>os ws. length os = length xs \<and> length ws = Suc (length xs) \<and>
           ws ! 0 = snd (now w) \<and> w' = snd (now (ws ! length xs)) \<and>
           processed r = map projr (filter (\<lambda>z. \<not> isl z) os) \<and>
           ProcessingResult.errors r = map projl (filter isl os) \<and>
           (\<forall>i<length xs. process_item P (xs ! i) ([], []) (ws ! i) =
               (Inr (map projr (filter (\<lambda>z. \<not> isl z) [os ! i]), map projl (filter isl [os ! i])),
                ws ! Suc i))"
proof -
  from assms obtain acc w1 where
    run: "for_of (process_item P) xs ([], []) (snd (now w)) = (Inr acc, w1)" and
    w': "w' = snd (now w1)" and
    r: "processed r = fst acc" "ProcessingResult.errors r = snd acc"
    unfolding process_Inr by auto
  from for_of_trace [where body = "process_item P" and
      R = "\<lambda>x w out w'. process_item P x ([], []) w =
             (Inr (map projr (filter (\<lambda>z. \<not> isl z) [out]), map projl (filter isl [out])), w')",
      OF process_item_fresh run]
  obtain os ws where "length os = length xs" "length ws = Suc (length xs)"
    "ws ! 0 = snd (now w)" "ws ! length xs = w1"
    "fst acc = map projr (filter (\<lambda>z. \<not> isl z) os)" "snd acc = map projl (filter isl os)"
    "\<forall>i<length xs. process_item P (xs ! i) ([], []) (ws ! i) =
               (Inr (map projr (filter (\<lambda>z. \<not> isl z) [os ! i]), map projl (filter isl [os ! i])),
                ws ! Suc i)"
    by auto
  with w' r show ?thesis by (intro exI [of _ os] exI [of _ ws]) simp
qed

lemma event_process_item_Inr:
  "event_process_item V x acc w = (Inr acc', w') \<longleftrightarrow>
     (\<exists>m. V x w = (Inl (ErrorObj m), w') \<and>
          acc' = (fst acc, snd acc @ [\<lparr>item = x, error = m, code = ''PROCESSING_ERROR''\<rparr>])) \<or>
     (\<exists>v. V x w = (Inr v, w') \<and> \<not> isValid v \<and>
          acc' = (fst acc, snd acc @ [\<lparr>item = x, error = join (ValidationResult.errors v) '', '',
                                       code = ''VALIDATION_ERROR''\<rparr>])) \<or>
     (\<exists>v. V x w = (Inr v, w') \<and> isValid v \<and> acc' = (fst acc @ [x], snd acc))"
  unfolding event_process_item_def
  by (auto simp: catch_block_Inr split: prod.splits sum.splits if_splits)

lemma event_process_item_Inl:
  "event_process_item V x acc w = (Inl e, w') \<longleftrightarrow> e = TypeError \<and> V x w = (Inl Nullish, w')"
  unfolding event_process_item_def
  by (auto simp: catch_block_Inl split: prod.splits sum.splits if_splits)

lemma event_process_item_fresh:
  assumes "event_process_item V x acc w = (Inr acc', w')"
  shows "\<exists>out. event_process_item V x ([], []) w =
             (Inr (map projr (filter (\<lambda>z. \<not> isl z) [out]), map projl (filter isl [out])), w') \<and>
           acc' = (fst acc @ map projr (filter (\<lambda>z. \<not> isl z) [out]),
                   snd acc @ map projl (filter isl [out]))"
proof -
  from assms consider
    (a) m where "V x w = (Inl (ErrorObj m), w')"
      "acc' = (fst acc, snd acc @ [\<lparr>item = x, error = m, code = ''PROCESSING_ERROR''\<rparr>])"
  | (b) v where "V x w = (Inr v, w')" "\<not> isValid v"
      "acc' = (fst acc, snd acc @ [\<lparr>item = x, error = join (ValidationResult.errors v) '', '',
                                       code = ''VALIDATION_ERROR''\<rparr>])"
  | (c) v where "V x w = (Inr v, w')" "isValid v" "acc' = (fst acc @ [x], snd acc)"
    unfolding event_process_item_Inr by blast
  then show ?thesis
  proof cases
    case a
    then show ?thesis
      by (intro exI [of _ "Inl \<lparr>item = x, error = m, code = ''PROCESSING_ERROR''\<rparr>"])
         (simp add: event_process_item_Inr)
  next
    case b
    then show ?thesis
      by (intro exI [of _ "Inl \<lparr>item = x, error = join (ValidationResult.errors v) '', '',
                                 code = ''VALIDATION_ERROR''\<rparr>"])
         (simp add: event_process_item_Inr)
  next
    case c
    then show ?thesis
      by (intro exI [of _ "Inr x"]) (simp add: event_process_item_Inr)
  qed
qed

lemma event_process_Inr:
  "event_process now V xs w = (Inr r, w') \<longleftrightarrow>
     (\<exists>acc w1. for_of (event_process_item V) xs ([], []) (snd (now w)) = (Inr acc, w1) \<and>
        w' = snd (now w1) \<and>
        r = \<lparr>processed = fst acc, ProcessingResult.errors = snd acc,
             summary = \<lparr>total' = length xs, successful = length (fst acc),
                        failed = length (snd acc),
                        duration = fst (now w1) - fst (now w)\<rparr>\<rparr>)"
  unfolding event_process_def by (auto split: prod.splits sum.splits)

lemma event_process_trace:
  assumes "event_process now V xs w = (Inr r, w')"
  shows "\<exists>os ws. length os = length xs \<and> length ws = Suc (length xs) \<and>
           ws ! 0 = snd (now w) \<and> w' = snd (now (ws ! length xs)) \<and>
           processed r = map projr (filter (\<lambda>z. \<not> isl z) os) \<and>
           ProcessingResult.errors r = map projl (filter isl os) \<and>
           (\<forall>i<length xs. event_process_item V (xs ! i) ([], []) (ws ! i) =
               (Inr (map projr (filter (\<lambda>z. \<not> isl z) [os ! i]), map projl (filter isl [os ! i])),
                ws ! Suc i))"
proof -
  from assms obtain acc w1 where
    run: "for_of (event_process_item V) xs ([], []) (snd (now w)) = (Inr acc, w1)" and
    w': "w' = snd (now w1)" and
    r: "processed r = fst acc" "ProcessingResult.errors r = snd acc"
    unfolding event_process_Inr by auto
  from for_of_trace [where body = "event_process_item V" and
      R = "\<lambda>x w out w'. event_process_item V x ([], []) w =
             (Inr (map projr (filter (\<lambda>z. \<not> isl z) [out]), map projl (filter isl [out])), w')",
      OF event_process_item_fresh run]
  obtain os ws where "length os = length xs" "length ws = Suc (length xs)"
    "ws ! 0 = snd (now w)" "ws ! length xs = w1"
    "fst acc = map projr (filter (\<lambda>z. \<not> isl z) os)" "snd acc = map projl (filter isl os)"
    "\<forall>i<length xs. event_process_item V (xs ! i) ([], []) (ws ! i) =
               (Inr (map projr (filter (\<lambda>z. \<not> isl z) [os ! i]), map projl (filter isl [os ! i])),
                ws ! Suc i)"
    by auto
  with w' r show ?thesis by (intro exI [of _ os] exI [of _ ws]) simp
qed

text \<open>Entries and values picked out of a list of per-position outcomes keep the order of
  the positions.\<close>

lemma subseq_outcomes:
  "length os = length xs \<Longrightarrow> \<forall>i<length xs. Q (os ! i) \<longrightarrow> f (os ! i) = xs ! i \<Longrightarrow>
     subseq (map f (filter Q os)) xs"
proof (induction os xs rule: list_induct2)
  case Nil
  then show ?case by simp
next
  case (Cons out os x xs)
  from Cons.prems have hd: "Q out \<longrightarrow> f out = x" by (auto dest: spec [of _ 0])
  from Cons.prems have "\<forall>i<length xs. Q (os ! i) \<longrightarrow> f (os ! i) = xs ! i"
    by (auto dest: spec [of _ "Suc i" for i])
  with Cons.IH have "subseq (map f (filter Q os)) xs" by blast
  with hd show ?case by auto
qed

lemma length_outcomes:
  "length (map projr (filter (\<lambda>z. \<not> isl z) os)) + length (map projl (filter isl os)) = length os"
  by (induction os) auto

lemma process_item_outcome:
  "process_item P x ([], []) w =
     (Inr (map projr (filter (\<lambda>z. \<not> isl z) [out]), map projl (filter isl [out])), w') \<Longrightarrow>
   (case out of
      Inl e \<Rightarrow> item e = x
    | Inr p \<Rightarrow> \<exists>v w1. validate P x w = (Inr v, w1) \<and> isValid v \<and>
                 applyBusinessRules P x w1 = (Inr p, w'))"
  by (cases out) (auto simp: process_item_Inr)

lemma event_process_item_outcome:
  "event_process_item V x ([], []) w =
     (Inr (map projr (filter (\<lambda>z. \<not> isl z) [out]), map projl (filter isl [out])), w') \<Longrightarrow>
   (case out of
      Inl e \<Rightarrow> item e = x
    | Inr p \<Rightarrow> p = x \<and> (\<exists>v. V x w = (Inr v, w') \<and> isValid v))"
  by (cases out) (auto simp: event_process_item_Inr)

lemma process_lengths:
  assumes "process now P xs w = (Inr r, w')"
  shows "length (processed r) + length (ProcessingResult.errors r) = length xs"
proof -
  from process_trace [OF assms] obtain os where
    "length os = length xs" "processed r = map projr (filter (\<lambda>z. \<not> isl z) os)"
    "ProcessingResult.errors r = map projl (filter isl os)" by blast
  with length_outcomes [of os] show ?thesis by simp
qed

lemma event_process_lengths:
  assumes "event_process now V xs w = (Inr r, w')"
  shows "length (processed r) + length (ProcessingResult.errors r) = length xs"
proof -
  from event_process_trace [OF assms] obtain os where
    "length os = length xs" "processed r = map projr (filter (\<lambda>z. \<not> isl z) os)"
    "ProcessingResult.errors r = map projl (filter isl os)" by blast
  with length_outcomes [of os] show ?thesis by simp
qed

text \<open>The two example runs.\<close>

lemma users_run: "process tick (UserProcessor tick) users 100 = (Inr users_result, 103)"
  by code_simp

lemma loginEvents_run:
  "event_process tick userLoginValidator loginEvents 100 = (Inr loginEvents_result, 102)"
  by code_simp

lemma validate_Inl: "validate P x w = (Inl t, w') \<longleftrightarrow> validator P x w = (Inl t, w')"
  unfolding validate_def by (auto simp: Let_def split: prod.splits sum.splits)

lemma validate_Inr:
  "validate P x w = (Inr v, w') \<longleftrightarrow>
     (\<exists>cv. validator P x w = (Inr cv, w') \<and>
        v = \<lparr>isValid =
               ((if \<not> truthy (Entity.id' x) then [''ID is required''] else []) @
                (if \<not> truthy (createdAt x) then [''Created date is required''] else []) @
                (if \<not> truthy (updatedAt x) then [''Updated date is required''] else []) @
                (if \<not> isValid cv then ValidationResult.errors cv else []) = []),
             ValidationResult.errors =
                (if \<not> truthy (Entity.id' x) then [''ID is required''] else []) @
                (if \<not> truthy (createdAt x) then [''Created date is required''] else []) @
                (if \<not> truthy (updatedAt x) then [''Updated date is required''] else []) @
                (if \<not> isValid cv then ValidationResult.errors cv else [])\<rparr>)"
  unfolding validate_def by (auto simp: Let_def split: prod.splits sum.splits)

lemma event_validate_Inl: "event_validate V x w = (Inl t, w') \<longleftrightarrow> V x w = (Inl t, w')"
  unfolding event_validate_def by (auto simp: Let_def split: prod.splits sum.splits)

lemma event_validate_Inr:
  "event_validate V x w = (Inr v, w') \<longleftrightarrow>
     (\<exists>cv. V x w = (Inr cv, w') \<and>
        v = \<lparr>isValid =
               ((if \<not> truthy (BaseEvent.id' x) then [''ID is required''] else []) @
                (if \<not> truthy (eventType x) then [''Event type is required''] else []) @
                (if \<not> isValid cv then ValidationResult.errors cv else []) = []),
             ValidationResult.errors =
                (if \<not> truthy (BaseEvent.id' x) then [''ID is required''] else []) @
                (if \<not> truthy (eventType x) then [''Event type is required''] else []) @
                (if \<not> isValid cv then ValidationResult.errors cv else [])\<rparr>)"
  unfolding event_validate_def by (auto simp: Let_def split: prod.splits sum.splits)

lemma apply_rules_Inl:
  "apply_rules rs x w = (Inl t, u) \<longleftrightarrow>
     (\<exists>k<length rs. \<exists>y wk. apply_rules (take k rs) x w = (Inr y, wk) \<and>
         apply' (rs ! k) y wk = (Inl t, u))"
proof (induction rs arbitrary: x w)
  case Nil
  then show ?case by simp
next
  case (Cons r rs)
  show ?case
  proof (cases "apply' r x w")
    case (Pair res w1)
    show ?thesis
    proof (cases res)
      case (Inl e)
      with Pair show ?thesis
        by (auto simp: less_Suc_eq_0_disj)
    next
      case (Inr y1)
      with Pair Cons.IH [of y1 w1] show ?thesis
        by (auto simp: less_Suc_eq_0_disj)
    qed
  qed
qed

lemma for_of_total:
  assumes "\<And>x acc u e u'. body x acc u \<noteq> (Inl e, u')"
  shows "\<exists>acc' w'. for_of body xs acc w = (Inr acc', w')"
proof (induction xs arbitrary: acc w)
  case Nil
  then show ?case by simp
next
  case (Cons x xs)
  obtain res w1 where b: "body x acc w = (res, w1)" by (cases "body x acc w")
  with assms obtain acc1 where "res = Inr acc1" by (cases res) auto
  with b Cons.IH [of acc1 w1] show ?case by simp
qed

lemma process_item_processing_error:
  assumes "process_item P x ([], []) w =
     (Inr (map projr (filter (\<lambda>z. \<not> isl z) [out]), map projl (filter isl [out])), w')"
  shows "out = Inl \<lparr>item = x, error = m, code = ''PROCESSING_ERROR''\<rparr> \<longleftrightarrow>
     (\<exists>u. validate P x w = (Inl (ErrorObj m), u)) \<or>
     (\<exists>v w1 u. validate P x w = (Inr v, w1) \<and> isValid v \<and>
         applyBusinessRules P x w1 = (Inl (ErrorObj m), u))"
  using assms by (cases out) (auto simp: process_item_Inr)

lemma event_process_item_processing_error:
  assumes "event_process_item V x ([], []) w =
     (Inr (map projr (filter (\<lambda>z. \<not> isl z) [out]), map projl (filter isl [out])), w')"
  shows "out = Inl \<lparr>item = x, error = m, code = ''PROCESSING_ERROR''\<rparr> \<longleftrightarrow>
     (\<exists>u. V x w = (Inl (ErrorObj m), u))"
  using assms by (cases out) (auto simp: event_process_item_Inr)

lemma failing_users_run:
  "process tick failing_processor users 100 = (Inr failing_users_result, 102)"
  by code_simp

lemma failing_events_run:
  "event_process tick failing_validator loginEvents 100 = (Inr failing_events_result, 102)"
  by code_simp

lemma process_item_not_Inl:
  assumes v: "\<forall>x u u'. validator P x u \<noteq> (Inl Nullish, u')"
    and rs: "\<forall>rule\<in>set (businessRules P). \<forall>x u u'. apply' rule x u \<noteq> (Inl Nullish, u')"
  shows "process_item P x acc u \<noteq> (Inl e, u')"
proof
  assume "process_item P x acc u = (Inl e, u')"
  then consider "validate P x u = (Inl Nullish, u')"
    | w1 where "applyBusinessRules P x w1 = (Inl Nullish, u')"
    unfolding process_item_Inl by blast
  then show False
  proof cases
    case 1
    with v show False by (simp add: validate_Inl)
  next
    case 2
    then obtain k y uk where "k < length (businessRules P)"
      "apply' (businessRules P ! k) y uk = (Inl Nullish, u')"
      unfolding applyBusinessRules_def apply_rules_Inl by blast
    with rs show False by (metis nth_mem)
  qed
qed

lemma process_of_for_of:
  "for_of (process_item P) xs ([], []) (snd (now w)) = (Inr acc, w1) \<Longrightarrow>
     \<exists>r. process now P xs w = (Inr r, snd (now w1))"
  by (auto simp: process_Inr)

lemma event_process_of_for_of:
  "for_of (event_process_item V) xs ([], []) (snd (now w)) = (Inr acc, w1) \<Longrightarrow>
     \<exists>r. event_process now V xs w = (Inr r, snd (now w1))"
  by (auto simp: event_process_Inr)

lemma apply_rules_chain:
  "apply_rules rs x u = (Inr p, u') \<longleftrightarrow>
     (\<exists>vs us. length vs = Suc (length rs) \<and> length us = Suc (length rs) \<and>
        vs ! 0 = x \<and> us ! 0 = u \<and> vs ! length rs = p \<and> us ! length rs = u' \<and>
        (\<forall>k<length rs. apply' (rs ! k) (vs ! k) (us ! k) = (Inr (vs ! Suc k), us ! Suc k)))"
proof (induction rs arbitrary: x u)
  case Nil
  show ?case
  proof
    assume "apply_rules [] x u = (Inr p, u')"
    then have "x = p" "u = u'" by simp_all
    then show "\<exists>vs us. length vs = Suc (length []) \<and> length us = Suc (length []) \<and>
        vs ! 0 = x \<and> us ! 0 = u \<and> vs ! length [] = p \<and> us ! length [] = u' \<and>
        (\<forall>k<length []. apply' ([] ! k) (vs ! k) (us ! k) = (Inr (vs ! Suc k), us ! Suc k))"
      by (intro exI [of _ "[x]"] exI [of _ "[u]"]) simp
  next
    assume "\<exists>vs us. length vs = Suc (length []) \<and> length us = Suc (length []) \<and>
        vs ! 0 = x \<and> us ! 0 = u \<and> vs ! length [] = p \<and> us ! length [] = u' \<and>
        (\<forall>k<length []. apply' ([] ! k) (vs ! k) (us ! k) = (Inr (vs ! Suc k), us ! Suc k))"
    then show "apply_rules [] x u = (Inr p, u')" by auto
  qed
next
  case (Cons r rs)
  show ?case
  proof
    assume "apply_rules (r # rs) x u = (Inr p, u')"
    then obtain y u1 where
      a: "apply' r x u = (Inr y, u1)" and b: "apply_rules rs y u1 = (Inr p, u')"
      by (auto split: prod.splits sum.splits)
    from b obtain vs us where
      l: "length vs = Suc (length rs)" "length us = Suc (length rs)" and
      e: "vs ! 0 = y" "us ! 0 = u1" "vs ! length rs = p" "us ! length rs = u'" and
      c: "\<forall>k<length rs. apply' (rs ! k) (vs ! k) (us ! k) = (Inr (vs ! Suc k), us ! Suc k)"
      unfolding Cons.IH by blast
    have "\<forall>k<length (r # rs). apply' ((r # rs) ! k) ((x # vs) ! k) ((u # us) ! k) =
            (Inr ((x # vs) ! Suc k), (u # us) ! Suc k)"
    proof (intro allI impI)
      fix k assume "k < length (r # rs)"
      then show "apply' ((r # rs) ! k) ((x # vs) ! k) ((u # us) ! k) =
            (Inr ((x # vs) ! Suc k), (u # us) ! Suc k)"
        using a e c by (cases k) simp_all
    qed
    with l e show "\<exists>vs us. length vs = Suc (length (r # rs)) \<and>
        length us = Suc (length (r # rs)) \<and>
        vs ! 0 = x \<and> us ! 0 = u \<and> vs ! length (r # rs) = p \<and> us ! length (r # rs) = u' \<and>
        (\<forall>k<length (r # rs). apply' ((r # rs) ! k) (vs ! k) (us ! k) =
            (Inr (vs ! Suc k), us ! Suc k))"
      by (intro exI [of _ "x # vs"] exI [of _ "u # us"]) simp
  next
    assume "\<exists>vs us. length vs = Suc (length (r # rs)) \<and>
        length us = Suc (length (r # rs)) \<and>
        vs ! 0 = x \<and> us ! 0 = u \<and> vs ! length (r # rs) = p \<and> us ! length (r # rs) = u' \<and>
        (\<forall>k<length (r # rs). apply' ((r # rs) ! k) (vs ! k) (us ! k) =
            (Inr (vs ! Suc k), us ! Suc k))"
    then obtain vs us where
      l: "length vs = Suc (Suc (length rs))" "length us = Suc (Suc (length rs))" and
      e: "vs ! 0 = x" "us ! 0 = u" "vs ! Suc (length rs) = p" "us ! Suc (length rs) = u'" and
      c: "\<forall>k<Suc (length rs). apply' ((r # rs) ! k) (vs ! k) (us ! k) =
            (Inr (vs ! Suc k), us ! Suc k)"
      by auto
    from c e have a: "apply' r x u = (Inr (vs ! 1), us ! 1)"
      by (auto dest: spec [of _ 0])
    have c': "\<forall>k<length rs. apply' (rs ! k) (tl vs ! k) (tl us ! k) =
            (Inr (tl vs ! Suc k), tl us ! Suc k)"
    proof (intro allI impI)
      fix k assume k: "k < length rs"
      then have "Suc k < Suc (length rs)" by simp
      with c have "apply' ((r # rs) ! Suc k) (vs ! Suc k) (us ! Suc k) =
            (Inr (vs ! Suc (Suc k)), us ! Suc (Suc k))" by blast
      with k l show "apply' (rs ! k) (tl vs ! k) (tl us ! k) =
            (Inr (tl vs ! Suc k), tl us ! Suc k)"
        by (simp add: nth_tl)
    qed
    from l e have "length (tl vs) = Suc (length rs)" "length (tl us) = Suc (length rs)"
      "tl vs ! 0 = vs ! 1" "tl us ! 0 = us ! 1" "tl vs ! length rs = p" "tl us ! length rs = u'"
      by (simp_all add: nth_tl)
    with c' have "apply_rules rs (vs ! 1) (us ! 1) = (Inr p, u')"
      unfolding Cons.IH by blast
    with a show "apply_rules (r # rs) x u = (Inr p, u')" by simp
  qed
qed

lemma process_item_processed:
  assumes "process_item P x ([], []) w =
     (Inr (map projr (filter (\<lambda>z. \<not> isl z) [out]), map projl (filter isl [out])), w')"
  shows "out = Inr p \<longleftrightarrow>
     (\<exists>v w1. validate P x w = (Inr v, w1) \<and> isValid v \<and>
         applyBusinessRules P x w1 = (Inr p, w'))"
  using assms by (cases out) (auto simp: process_item_Inr)

lemma UserProcessor_rules:
  "applyBusinessRules (UserProcessor now) x w =
     (Inr (x\<lparr>email := trim (toLowerCase (email x)), updatedAt := JDate (fst (now w))\<rparr>),
      snd (now w))"
  by (simp add: applyBusinessRules_def UserProcessor_def normalizeEmail_def
      updateTimestamp_def split: prod.splits)

lemma UserProcessor_validate:
  "truthy (Entity.id' x) \<Longrightarrow> truthy (createdAt x) \<Longrightarrow> truthy (updatedAt x) \<Longrightarrow>
   includes' (email x) ''@'' \<Longrightarrow> name' x \<noteq> [] \<Longrightarrow>
   validate (UserProcessor now) x w =
     (Inr \<lparr>isValid = True, ValidationResult.errors = []\<rparr>, w)"
  by (simp add: validate_def UserProcessor_def)

lemma UserProcessor_process_valid:
  assumes "truthy (Entity.id' y)" "truthy (createdAt y)" "truthy (updatedAt y)"
    "includes' (email y) ''@''" "name' y \<noteq> []"
  shows "\<exists>r w'. process now (UserProcessor now) [y] w = (Inr r, w') \<and>
     processed r = [y\<lparr>email := trim (toLowerCase (email y)),
                      updatedAt := JDate (fst (now (snd (now w))))\<rparr>] \<and>
     ProcessingResult.errors r = []"
  by (simp add: process_def process_item_def UserProcessor_validate [OF assms]
      UserProcessor_rules split: prod.splits)

lemma array_map_from_Cons_Inr:
  "array_map_from f arr k (x # xs) w = (Inr zs, w') \<longleftrightarrow>
     (\<exists>z w1 zs'. f x (Some (k, arr)) w = (Inr z, w1) \<and>
        array_map_from f arr (Suc k) xs w1 = (Inr zs', w') \<and> zs = z # zs')"
  by (auto split: prod.splits sum.splits)

lemma array_map_from_trace:
  "array_map_from f arr k xs w = (Inr zs, w') \<Longrightarrow>
     length zs = length xs \<and>
     (\<exists>ws. length ws = Suc (length xs) \<and> ws ! 0 = w \<and> ws ! length xs = w' \<and>
        (\<forall>i<length xs. f (xs ! i) (Some (k + i, arr)) (ws ! i) = (Inr (zs ! i), ws ! Suc i)))"
proof (induction xs arbitrary: k w zs)
  case Nil
  then have "zs = []" "w' = w" by simp_all
  then show ?case by (intro conjI exI [of _ "[w]"]) simp_all
next
  case (Cons x xs)
  from Cons.prems obtain z w1 zs' where
    a: "f x (Some (k, arr)) w = (Inr z, w1)" and
    b: "array_map_from f arr (Suc k) xs w1 = (Inr zs', w')" and c: "zs = z # zs'"
    unfolding array_map_from_Cons_Inr by blast
  from Cons.IH [OF b] obtain ws where
    l: "length zs' = length xs" "length ws = Suc (length xs)" and
    e: "ws ! 0 = w1" "ws ! length xs = w'" and
    s: "\<forall>i<length xs. f (xs ! i) (Some (Suc k + i, arr)) (ws ! i) = (Inr (zs' ! i), ws ! Suc i)"
    by blast
  have "\<forall>i<length (x # xs). f ((x # xs) ! i) (Some (k + i, arr)) ((w # ws) ! i) =
      (Inr (zs ! i), (w # ws) ! Suc i)"
  proof (intro allI impI)
    fix i assume "i < length (x # xs)"
    then show "f ((x # xs) ! i) (Some (k + i, arr)) ((w # ws) ! i) =
        (Inr (zs ! i), (w # ws) ! Suc i)"
      using a c e s by (cases i) simp_all
  qed
  moreover have "length zs = length (x # xs)" "length (w # ws) = Suc (length (x # xs))"
    "(w # ws) ! 0 = w" "(w # ws) ! length (x # xs) = w'"
    using l e c by simp_all
  ultimately show ?case by blast
qed

lemma array_map_from_pure:
  "\<exists>zs. array_map_from (\<lambda>x extra u. (Inr (g x extra), u)) arr k xs w = (Inr zs, w) \<and>
      length zs = length xs \<and> (\<forall>i<length xs. zs ! i = g (xs ! i) (Some (k + i, arr)))"
proof (induction xs arbitrary: k)
  case Nil
  show ?case by simp
next
  case (Cons x xs)
  from Cons.IH [of "Suc k"] obtain zs where
    a: "array_map_from (\<lambda>x extra u. (Inr (g x extra), u)) arr (Suc k) xs w = (Inr zs, w)" and
    l: "length zs = length xs" and
    e: "\<forall>i<length xs. zs ! i = g (xs ! i) (Some (Suc k + i, arr))"
    by blast
  have "\<forall>i<length (x # xs). (g x (Some (k, arr)) # zs) ! i = g ((x # xs) ! i) (Some (k + i, arr))"
  proof (intro allI impI)
    fix i assume "i < length (x # xs)"
    then show "(g x (Some (k, arr)) # zs) ! i = g ((x # xs) ! i) (Some (k + i, arr))"
      using e by (cases i) simp_all
  qed
  with a l show ?case
    by (intro exI [of _ "g x (Some (k, arr)) # zs"]) simp
qed

text \<open>The worlds are given by a function here, so that the rest of a run is a run.\<close>

lemma array_map_from_fault:
  "n < length xs \<Longrightarrow> us 0 = w \<Longrightarrow>
   \<forall>i<n. \<exists>z. f (xs ! i) (Some (k + i, arr)) (us i) = (Inr z, us (Suc i)) \<Longrightarrow>
   f (xs ! n) (Some (k + n, arr)) (us n) = (Inl e, w') \<Longrightarrow>
   array_map_from f arr k xs w = (Inl e, w')"
proof (induction xs arbitrary: n k w us)
  case Nil
  then show ?case by simp
next
  case (Cons x xs)
  show ?case
  proof (cases n)
    case 0
    with Cons.prems show ?thesis by simp
  next
    case (Suc m)
    with Cons.prems(3) have "\<exists>z. f ((x # xs) ! 0) (Some (k + 0, arr)) (us 0) = (Inr z, us (Suc 0))"
      by blast
    with Cons.prems(2) obtain z where a: "f x (Some (k, arr)) w = (Inr z, us 1)" by auto
    have m: "m < length xs" using Cons.prems(1) Suc by simp
    have s: "\<forall>i<m. \<exists>z. f (xs ! i) (Some (Suc k + i, arr)) ((us \<circ> Suc) i) =
        (Inr z, (us \<circ> Suc) (Suc i))"
    proof (intro allI impI)
      fix i assume "i < m"
      then have "Suc i < n" using Suc by simp
      with Cons.prems(3) have "\<exists>z. f ((x # xs) ! Suc i) (Some (k + Suc i, arr)) (us (Suc i)) =
          (Inr z, us (Suc (Suc i)))" by blast
      then show "\<exists>z. f (xs ! i) (Some (Suc k + i, arr)) ((us \<circ> Suc) i) =
          (Inr z, (us \<circ> Suc) (Suc i))" by simp
    qed
    from Cons.prems(4) Suc
    have t: "f (xs ! m) (Some (Suc k + m, arr)) ((us \<circ> Suc) m) = (Inl e, w')" by simp
    have "array_map_from f arr (Suc k) xs (us 1) = (Inl e, w')"
      by (rule Cons.IH [OF m _ s t]) simp
    with a show ?thesis by simp
  qed
qed

lemma userSummary_run:
  "transform (UserProcessor tick) users userSummary 100 =
     (Inr [(JStr ''user1'', ''John Doe'', False), (JStr ''user2'', '''', True)], 100)"
  by code_simp

lemma throwing_mapper_steps:
  "throwing_mapper (users ! 0) (Some (0, users)) 100 = (Inr ''John Doe'', 101) \<and>
   throwing_mapper (users ! 1) (Some (1, users)) 101 =
     (Inl (ErrorObj ''no summary for an admin''), 102)"
  by code_simp

lemma process_item_validation_error:
  assumes "process_item P x ([], []) w =
     (Inr (map projr (filter (\<lambda>z. \<not> isl z) [out]), map projl (filter isl [out])), w')"
  shows "out = Inl \<lparr>item = x, error = m, code = ''VALIDATION_ERROR''\<rparr> \<longleftrightarrow>
     (\<exists>v u. validate P x w = (Inr v, u) \<and> \<not> isValid v \<and>
         m = join (ValidationResult.errors v) '', '')"
  using assms by (cases out) (auto simp: process_item_Inr)

text \<open>\<^verbatim>\<open>BaseDataProcessor.process\<close> records an item with the code \<^verbatim>\<open>VALIDATION_ERROR\<close> and
  the joined error strings exactly when \<^verbatim>\<open>validate\<close> answers invalid for it.\<close>

lemma process_validation_error_iff_invalid:
  assumes run: "process now P xs w = (Inr r, w')"
  shows "\<exists>os ws. length os = length xs \<and> length ws = Suc (length xs) \<and>
         ws ! 0 = snd (now w) \<and>
         ProcessingResult.errors r = map projl (filter isl os) \<and>
         processed r = map projr (filter (\<lambda>z. \<not> isl z) os) \<and>
         (\<forall>i<length xs. \<forall>m.
            os ! i = Inl \<lparr>item = xs ! i, error = m, code = ''VALIDATION_ERROR''\<rparr> \<longleftrightarrow>
              (\<exists>v u. validate P (xs ! i) (ws ! i) = (Inr v, u) \<and> \<not> isValid v \<and>
                  m = join (ValidationResult.errors v) '', ''))"
proof -
  from process_trace [OF run] obtain os ws where
    len: "length os = length xs" "length ws = Suc (length xs)" "ws ! 0 = snd (now w)" and
    er: "ProcessingResult.errors r = map projl (filter isl os)" and
    pr: "processed r = map projr (filter (\<lambda>z. \<not> isl z) os)" and
    st: "\<forall>i<length xs. process_item P (xs ! i) ([], []) (ws ! i) =
            (Inr (map projr (filter (\<lambda>z. \<not> isl z) [os ! i]), map projl (filter isl [os ! i])),
             ws ! Suc i)"
    by blast
  have each: "\<forall>i<length xs. \<forall>m.
            os ! i = Inl \<lparr>item = xs ! i, error = m, code = ''VALIDATION_ERROR''\<rparr> \<longleftrightarrow>
              (\<exists>v u. validate P (xs ! i) (ws ! i) = (Inr v, u) \<and> \<not> isValid v \<and>
                  m = join (ValidationResult.errors v) '', '')"
  proof (intro allI impI)
    fix i m assume "i < length xs"
    with st have "process_item P (xs ! i) ([], []) (ws ! i) =
            (Inr (map projr (filter (\<lambda>z. \<not> isl z) [os ! i]), map projl (filter isl [os ! i])),
             ws ! Suc i)" by blast
    from process_item_validation_error [OF this]
    show "os ! i = Inl \<lparr>item = xs ! i, error = m, code = ''VALIDATION_ERROR''\<rparr> \<longleftrightarrow>
              (\<exists>v u. validate P (xs ! i) (ws ! i) = (Inr v, u) \<and> \<not> isValid v \<and>
                  m = join (ValidationResult.errors v) '', '')" .
  qed
  show ?thesis
    by (intro exI [of _ os] exI [of _ ws] conjI) (rule len er pr each)+
qed

text \<open>The read of the message in the handler is the only place where \<^verbatim>\<open>process\<close> raises:
  when nothing that is thrown is \<^verbatim>\<open>null\<close> or \<^verbatim>\<open>undefined\<close>, it returns a result.\<close>

lemma process_returns_unless_nullish:
  "((\<forall>x u u'. validator P x u \<noteq> (Inl Nullish, u')) \<and>
    (\<forall>rule\<in>set (businessRules P). \<forall>x u u'. apply' rule x u \<noteq> (Inl Nullish, u')) \<longrightarrow>
      (\<exists>r w'. process now P xs w = (Inr r, w') \<and>
         length (processed r) + length (ProcessingResult.errors r) = length xs)) \<and>
   ((\<forall>y u u'. V y u \<noteq> (Inl Nullish, u')) \<longrightarrow>
      (\<exists>r w'. event_process now V ys w = (Inr r, w') \<and>
         length (processed r) + length (ProcessingResult.errors r) = length ys))"
proof (intro conjI impI)
  assume h: "(\<forall>x u u'. validator P x u \<noteq> (Inl Nullish, u')) \<and>
    (\<forall>rule\<in>set (businessRules P). \<forall>x u u'. apply' rule x u \<noteq> (Inl Nullish, u'))"
  then have v: "\<forall>x u u'. validator P x u \<noteq> (Inl Nullish, u')"
    and rs: "\<forall>rule\<in>set (businessRules P). \<forall>x u u'. apply' rule x u \<noteq> (Inl Nullish, u')"
    by simp_all
  have "\<And>x acc u e u'. process_item P x acc u \<noteq> (Inl e, u')"
    by (rule process_item_not_Inl [OF v rs])
  from for_of_total [of "process_item P", OF this]
  obtain acc w1 where "for_of (process_item P) xs ([], []) (snd (now w)) = (Inr acc, w1)"
    by blast
  from process_of_for_of [of P xs now w, OF this] obtain r w' where run: "process now P xs w = (Inr r, w')"
    by blast
  from run process_lengths [OF run]
  show "\<exists>r w'. process now P xs w = (Inr r, w') \<and>
         length (processed r) + length (ProcessingResult.errors r) = length xs"
    by blast
next
  assume h: "\<forall>y u u'. V y u \<noteq> (Inl Nullish, u')"
  then have "\<And>x acc u e u'. event_process_item V x acc u \<noteq> (Inl e, u')"
    by (simp add: event_process_item_Inl)
  from for_of_total [of "event_process_item V", OF this]
  obtain acc w1 where "for_of (event_process_item V) ys ([], []) (snd (now w)) = (Inr acc, w1)"
    by blast
  from event_process_of_for_of [of V ys now w, OF this]
  obtain r w' where run: "event_process now V ys w = (Inr r, w')"
    by blast
  from run event_process_lengths [OF run]
  show "\<exists>r w'. event_process now V ys w = (Inr r, w') \<and>
         length (processed r) + length (ProcessingResult.errors r) = length ys"
    by blast
qed

section \<open>Claims\<close>

text \<open>
  C1. Whenever \<^verbatim>\<open>process\<close> returns a result (of a \<^verbatim>\<open>BaseDataProcessor\<close> or of a processor
  made by \<^verbatim>\<open>createEventProcessor\<close>), every input position has exactly one outcome, an
  error entry carrying the input item or a processed value (for the base processor the value
  the rules returned for the item, for an event processor the item itself); \<^verbatim>\<open>errors\<close> is
  the list of the error entries and \<^verbatim>\<open>processed\<close> the list of the processed values, both in
  input order. So the items of \<^verbatim>\<open>errors\<close> are a subsequence of the input, and the two lists
  together are as long as the input.
\<close>

theorem process_partitions_input:
  "(process now P xs w = (Inr r, w') \<longrightarrow>
      (\<exists>os. length os = length xs \<and>
         ProcessingResult.errors r = map projl (filter isl os) \<and>
         processed r = map projr (filter (\<lambda>z. \<not> isl z) os) \<and>
         (\<forall>i<length xs. case os ! i of
              Inl e \<Rightarrow> item e = xs ! i
            | Inr p \<Rightarrow> \<exists>u u'. applyBusinessRules P (xs ! i) u = (Inr p, u'))) \<and>
      subseq (map item (ProcessingResult.errors r)) xs \<and>
      length (processed r) + length (ProcessingResult.errors r) = length xs) \<and>
   (event_process now V ys w = (Inr r', w'') \<longrightarrow>
      (\<exists>os. length os = length ys \<and>
         ProcessingResult.errors r' = map projl (filter isl os) \<and>
         processed r' = map projr (filter (\<lambda>z. \<not> isl z) os) \<and>
         (\<forall>i<length ys. case os ! i of
              Inl e \<Rightarrow> item e = ys ! i
            | Inr p \<Rightarrow> p = ys ! i)) \<and>
      subseq (map item (ProcessingResult.errors r')) ys \<and>
      subseq (processed r') ys \<and>
      length (processed r') + length (ProcessingResult.errors r') = length ys)"
proof (intro conjI impI)
  assume run: "process now P xs w = (Inr r, w')"
  from process_trace [OF run] obtain os ws where
    len: "length os = length xs" and
    pr: "processed r = map projr (filter (\<lambda>z. \<not> isl z) os)" and
    er: "ProcessingResult.errors r = map projl (filter isl os)" and
    st: "\<forall>i<length xs. process_item P (xs ! i) ([], []) (ws ! i) =
            (Inr (map projr (filter (\<lambda>z. \<not> isl z) [os ! i]), map projl (filter isl [os ! i])),
             ws ! Suc i)"
    by blast
  have each: "\<forall>i<length xs. case os ! i of
              Inl e \<Rightarrow> item e = xs ! i
            | Inr p \<Rightarrow> \<exists>u u'. applyBusinessRules P (xs ! i) u = (Inr p, u')"
  proof (intro allI impI)
    fix i assume "i < length xs"
    with st have "process_item P (xs ! i) ([], []) (ws ! i) =
            (Inr (map projr (filter (\<lambda>z. \<not> isl z) [os ! i]), map projl (filter isl [os ! i])),
             ws ! Suc i)" by blast
    from process_item_outcome [OF this]
    show "case os ! i of
              Inl e \<Rightarrow> item e = xs ! i
            | Inr p \<Rightarrow> \<exists>u u'. applyBusinessRules P (xs ! i) u = (Inr p, u')"
      by (auto split: sum.splits)
  qed
  with len pr er show "\<exists>os. length os = length xs \<and>
         ProcessingResult.errors r = map projl (filter isl os) \<and>
         processed r = map projr (filter (\<lambda>z. \<not> isl z) os) \<and>
         (\<forall>i<length xs. case os ! i of
              Inl e \<Rightarrow> item e = xs ! i
            | Inr p \<Rightarrow> \<exists>u u'. applyBusinessRules P (xs ! i) u = (Inr p, u'))"
    by blast
  from each have "\<forall>i<length xs. isl (os ! i) \<longrightarrow> (\<lambda>z. item (projl z)) (os ! i) = xs ! i"
    by (auto split: sum.splits)
  from subseq_outcomes [OF len this]
  show "subseq (map item (ProcessingResult.errors r)) xs" by (simp add: er comp_def)
  from length_outcomes [of os] show "length (processed r) + length (ProcessingResult.errors r) = length xs"
    by (simp add: pr er len)
next
  assume run: "event_process now V ys w = (Inr r', w'')"
  from event_process_trace [OF run] obtain os ws where
    len: "length os = length ys" and
    pr: "processed r' = map projr (filter (\<lambda>z. \<not> isl z) os)" and
    er: "ProcessingResult.errors r' = map projl (filter isl os)" and
    st: "\<forall>i<length ys. event_process_item V (ys ! i) ([], []) (ws ! i) =
            (Inr (map projr (filter (\<lambda>z. \<not> isl z) [os ! i]), map projl (filter isl [os ! i])),
             ws ! Suc i)"
    by blast
  have each: "\<forall>i<length ys. case os ! i of Inl e \<Rightarrow> item e = ys ! i | Inr p \<Rightarrow> p = ys ! i"
  proof (intro allI impI)
    fix i assume "i < length ys"
    with st have "event_process_item V (ys ! i) ([], []) (ws ! i) =
            (Inr (map projr (filter (\<lambda>z. \<not> isl z) [os ! i]), map projl (filter isl [os ! i])),
             ws ! Suc i)" by blast
    from event_process_item_outcome [OF this]
    show "case os ! i of Inl e \<Rightarrow> item e = ys ! i | Inr p \<Rightarrow> p = ys ! i"
      by (auto split: sum.splits)
  qed
  with len pr er show "\<exists>os. length os = length ys \<and>
         ProcessingResult.errors r' = map projl (filter isl os) \<and>
         processed r' = map projr (filter (\<lambda>z. \<not> isl z) os) \<and>
         (\<forall>i<length ys. case os ! i of Inl e \<Rightarrow> item e = ys ! i | Inr p \<Rightarrow> p = ys ! i)"
    by blast
  from each have "\<forall>i<length ys. isl (os ! i) \<longrightarrow> (\<lambda>z. item (projl z)) (os ! i) = ys ! i"
    by (auto split: sum.splits)
  from subseq_outcomes [OF len this]
  show "subseq (map item (ProcessingResult.errors r')) ys" by (simp add: er comp_def)
  from each have "\<forall>i<length ys. \<not> isl (os ! i) \<longrightarrow> projr (os ! i) = ys ! i"
    by (auto split: sum.splits)
  from subseq_outcomes [OF len this]
  show "subseq (processed r') ys" by (simp add: pr)
  from length_outcomes [of os] show "length (processed r') + length (ProcessingResult.errors r') = length ys"
    by (simp add: pr er len)
qed

theorem process_partitions_input_witness:
  "process tick (UserProcessor tick) users 100 = (Inr users_result, 103) \<and>
   event_process tick userLoginValidator loginEvents 100 = (Inr loginEvents_result, 102) \<and>
   subseq (map item (ProcessingResult.errors users_result)) users \<and>
   length (processed users_result) + length (ProcessingResult.errors users_result) = length users \<and>
   subseq (processed loginEvents_result) loginEvents \<and>
   subseq (map item (ProcessingResult.errors loginEvents_result)) loginEvents"
  using process_partitions_input [of tick "UserProcessor tick" users 100 users_result 103
      userLoginValidator loginEvents loginEvents_result 102]
    users_run loginEvents_run
  by simp

text \<open>
  C2. The summary of a returned result has \<^verbatim>\<open>total\<close> the length of the input,
  \<^verbatim>\<open>successful\<close> the length of \<^verbatim>\<open>processed\<close>, \<^verbatim>\<open>failed\<close> the length of \<^verbatim>\<open>errors\<close>, and
  \<^verbatim>\<open>successful + failed = total\<close>; on the empty input \<^verbatim>\<open>process\<close> returns the result with
  both lists empty and the three counts 0.
\<close>

theorem process_summary_counts:
  "(process now P xs w = (Inr r, w') \<longrightarrow>
      total' (summary r) = length xs \<and>
      successful (summary r) = length (processed r) \<and>
      failed (summary r) = length (ProcessingResult.errors r) \<and>
      successful (summary r) + failed (summary r) = total' (summary r)) \<and>
   (event_process now V ys w = (Inr r', w'') \<longrightarrow>
      total' (summary r') = length ys \<and>
      successful (summary r') = length (processed r') \<and>
      failed (summary r') = length (ProcessingResult.errors r') \<and>
      successful (summary r') + failed (summary r') = total' (summary r')) \<and>
   process now P [] w =
     (Inr \<lparr>processed = [], ProcessingResult.errors = [],
           summary = \<lparr>total' = 0, successful = 0, failed = 0,
                      duration = fst (now (snd (now w))) - fst (now w)\<rparr>\<rparr>,
      snd (now (snd (now w)))) \<and>
   event_process now V [] w =
     (Inr \<lparr>processed = [], ProcessingResult.errors = [],
           summary = \<lparr>total' = 0, successful = 0, failed = 0,
                      duration = fst (now (snd (now w))) - fst (now w)\<rparr>\<rparr>,
      snd (now (snd (now w))))"
proof (intro conjI impI)
  assume run: "process now P xs w = (Inr r, w')"
  then obtain acc where s: "summary r = \<lparr>total' = length xs, successful = length (fst acc),
      failed = length (snd acc), duration = duration (summary r)\<rparr>"
    and p: "processed r = fst acc" and e: "ProcessingResult.errors r = snd acc"
    unfolding process_Inr by auto
  from s show "total' (summary r) = length xs" by (metis ProcessingSummary.select_convs(1))
  from s p show "successful (summary r) = length (processed r)"
    by (metis ProcessingSummary.select_convs(2))
  from s e show "failed (summary r) = length (ProcessingResult.errors r)"
    by (metis ProcessingSummary.select_convs(3))
  from s p e process_lengths [OF run]
  show "successful (summary r) + failed (summary r) = total' (summary r)"
    by (metis ProcessingSummary.select_convs(1,2,3))
next
  assume run: "event_process now V ys w = (Inr r', w'')"
  then obtain acc where s: "summary r' = \<lparr>total' = length ys, successful = length (fst acc),
      failed = length (snd acc), duration = duration (summary r')\<rparr>"
    and p: "processed r' = fst acc" and e: "ProcessingResult.errors r' = snd acc"
    unfolding event_process_Inr by auto
  from s show "total' (summary r') = length ys" by (metis ProcessingSummary.select_convs(1))
  from s p show "successful (summary r') = length (processed r')"
    by (metis ProcessingSummary.select_convs(2))
  from s e show "failed (summary r') = length (ProcessingResult.errors r')"
    by (metis ProcessingSummary.select_convs(3))
  from s p e event_process_lengths [OF run]
  show "successful (summary r') + failed (summary r') = total' (summary r')"
    by (metis ProcessingSummary.select_convs(1,2,3))
next
  show "process now P [] w =
     (Inr \<lparr>processed = [], ProcessingResult.errors = [],
           summary = \<lparr>total' = 0, successful = 0, failed = 0,
                      duration = fst (now (snd (now w))) - fst (now w)\<rparr>\<rparr>,
      snd (now (snd (now w))))"
    by (simp add: process_def split: prod.splits)
next
  show "event_process now V [] w =
     (Inr \<lparr>processed = [], ProcessingResult.errors = [],
           summary = \<lparr>total' = 0, successful = 0, failed = 0,
                      duration = fst (now (snd (now w))) - fst (now w)\<rparr>\<rparr>,
      snd (now (snd (now w))))"
    by (simp add: event_process_def split: prod.splits)
qed

theorem process_summary_counts_witness:
  "process tick (UserProcessor tick) users 100 = (Inr users_result, 103) \<and>
   event_process tick userLoginValidator loginEvents 100 = (Inr loginEvents_result, 102) \<and>
   total' (summary users_result) = length users \<and>
   successful (summary users_result) + failed (summary users_result) =
     total' (summary users_result) \<and>
   total' (summary loginEvents_result) = length loginEvents \<and>
   successful (summary loginEvents_result) + failed (summary loginEvents_result) =
     total' (summary loginEvents_result)"
  using process_summary_counts [of tick "UserProcessor tick" users 100 users_result 103
      userLoginValidator loginEvents loginEvents_result 102]
    users_run loginEvents_run
  by simp

text \<open>
  C3. The \<^verbatim>\<open>process\<close> of an event processor calls the \<^verbatim>\<open>validator\<close> argument and not the
  processor's \<^verbatim>\<open>validate\<close>, as \<^verbatim>\<open>BaseDataProcessor.process\<close> does, so the structural checks
  are skipped there. A login event with an empty identifier, for which \<^verbatim>\<open>validate\<close> answers
  invalid with \<^verbatim>\<open>ID is required\<close>, is put into \<^verbatim>\<open>processed\<close> and not into \<^verbatim>\<open>errors\<close>; the
  generic event processor, whose validator tests the identifier itself, records it with an
  empty message and not with the message of \<^verbatim>\<open>validate\<close>.
\<close>

theorem event_process_skips_structural_checks:
  "event_process tick userLoginValidator [loginEvent_noId] 100 =
     (Inr \<lparr>processed = [loginEvent_noId], ProcessingResult.errors = [],
           summary = \<lparr>total' = 1, successful = 1, failed = 0, duration = 1\<rparr>\<rparr>, 102) \<and>
   event_validate userLoginValidator loginEvent_noId (101 :: int) =
     (Inr \<lparr>isValid = False, ValidationResult.errors = [''ID is required'']\<rparr>, 101) \<and>
   event_process tick genericEventValidator [loginEvent_noId] 100 =
     (Inr \<lparr>processed = [],
           ProcessingResult.errors =
             [\<lparr>item = loginEvent_noId, error = [], code = ''VALIDATION_ERROR''\<rparr>],
           summary = \<lparr>total' = 1, successful = 0, failed = 1, duration = 1\<rparr>\<rparr>, 102) \<and>
   event_validate genericEventValidator loginEvent_noId (101 :: int) =
     (Inr \<lparr>isValid = False, ValidationResult.errors = [''ID is required'']\<rparr>, 101)"
  by (intro conjI; code_simp)

text \<open>
  C4, as stated, fails: the \<^verbatim>\<open>try\<close> of \<^verbatim>\<open>process\<close> encloses the validation too, so a fault of
  the validator is recorded with the code \<^verbatim>\<open>PROCESSING_ERROR\<close> although no rule was applied.
  Here the processor has no rule at all (an event processor never has), the validator throws
  on every item, and every item is recorded with that code.
\<close>

theorem processing_error_without_rule_fault:
  "process tick failing_processor users 100 = (Inr failing_users_result, 102) \<and>
   businessRules failing_processor = [] \<and>
   map code (ProcessingResult.errors failing_users_result) =
     [''PROCESSING_ERROR'', ''PROCESSING_ERROR''] \<and>
   event_process tick failing_validator loginEvents 100 = (Inr failing_events_result, 102) \<and>
   map code (ProcessingResult.errors failing_events_result) =
     [''PROCESSING_ERROR'', ''PROCESSING_ERROR'']"
  by (intro conjI; code_simp)

text \<open>
  C4, amended. In a returned result, the outcome of input position \<open>i\<close> is the entry with the
  item, the message \<open>m\<close> and the code \<^verbatim>\<open>PROCESSING_ERROR\<close> exactly when, in the world \<open>ws ! i\<close> the
  iteration started in, the validation of the item threw a value with the message \<open>m\<close> or the
  item was valid and \<^verbatim>\<open>applyBusinessRules\<close> threw such a value; \<^verbatim>\<open>applyBusinessRules\<close> throws
  exactly when one of the rules does, on the value the rules before it returned. For an
  event processor the only such fault is the validator's. An error outcome carries the
  input item and, being an error outcome, adds nothing to \<^verbatim>\<open>processed\<close>.
\<close>

theorem processing_error_iff_fault:
  "(process now P xs w = (Inr r, w') \<longrightarrow>
      (\<exists>os ws. length os = length xs \<and> length ws = Suc (length xs) \<and>
         ws ! 0 = snd (now w) \<and>
         ProcessingResult.errors r = map projl (filter isl os) \<and>
         processed r = map projr (filter (\<lambda>z. \<not> isl z) os) \<and>
         (\<forall>i<length xs.
            (\<forall>e. os ! i = Inl e \<longrightarrow> item e = xs ! i) \<and>
            (\<forall>m. os ! i = Inl \<lparr>item = xs ! i, error = m, code = ''PROCESSING_ERROR''\<rparr> \<longleftrightarrow>
               (\<exists>u. validate P (xs ! i) (ws ! i) = (Inl (ErrorObj m), u)) \<or>
               (\<exists>v w1 u. validate P (xs ! i) (ws ! i) = (Inr v, w1) \<and> isValid v \<and>
                   applyBusinessRules P (xs ! i) w1 = (Inl (ErrorObj m), u)))))) \<and>
   (applyBusinessRules P x u = (Inl t, u') \<longleftrightarrow>
      (\<exists>k<length (businessRules P). \<exists>y uk.
          apply_rules (take k (businessRules P)) x u = (Inr y, uk) \<and>
          apply' (businessRules P ! k) y uk = (Inl t, u'))) \<and>
   (event_process now V ys w = (Inr r', w'') \<longrightarrow>
      (\<exists>os ws. length os = length ys \<and> length ws = Suc (length ys) \<and>
         ws ! 0 = snd (now w) \<and>
         ProcessingResult.errors r' = map projl (filter isl os) \<and>
         processed r' = map projr (filter (\<lambda>z. \<not> isl z) os) \<and>
         (\<forall>i<length ys.
            (\<forall>e. os ! i = Inl e \<longrightarrow> item e = ys ! i) \<and>
            (\<forall>m. os ! i = Inl \<lparr>item = ys ! i, error = m, code = ''PROCESSING_ERROR''\<rparr> \<longleftrightarrow>
               (\<exists>u. V (ys ! i) (ws ! i) = (Inl (ErrorObj m), u))))))"
proof (intro conjI impI)
  assume run: "process now P xs w = (Inr r, w')"
  from process_trace [OF run] obtain os ws where
    len: "length os = length xs" "length ws = Suc (length xs)" "ws ! 0 = snd (now w)" and
    pr: "processed r = map projr (filter (\<lambda>z. \<not> isl z) os)" and
    er: "ProcessingResult.errors r = map projl (filter isl os)" and
    st: "\<forall>i<length xs. process_item P (xs ! i) ([], []) (ws ! i) =
            (Inr (map projr (filter (\<lambda>z. \<not> isl z) [os ! i]), map projl (filter isl [os ! i])),
             ws ! Suc i)"
    by blast
  have "\<forall>i<length xs.
            (\<forall>e. os ! i = Inl e \<longrightarrow> item e = xs ! i) \<and>
            (\<forall>m. os ! i = Inl \<lparr>item = xs ! i, error = m, code = ''PROCESSING_ERROR''\<rparr> \<longleftrightarrow>
               (\<exists>u. validate P (xs ! i) (ws ! i) = (Inl (ErrorObj m), u)) \<or>
               (\<exists>v w1 u. validate P (xs ! i) (ws ! i) = (Inr v, w1) \<and> isValid v \<and>
                   applyBusinessRules P (xs ! i) w1 = (Inl (ErrorObj m), u)))"
  proof (intro allI impI conjI)
    fix i e assume "i < length xs" "os ! i = Inl e"
    with st process_item_outcome [of P "xs ! i" "ws ! i" "os ! i" "ws ! Suc i"]
    show "item e = xs ! i" by simp
  next
    fix i m assume "i < length xs"
    with st have "process_item P (xs ! i) ([], []) (ws ! i) =
            (Inr (map projr (filter (\<lambda>z. \<not> isl z) [os ! i]), map projl (filter isl [os ! i])),
             ws ! Suc i)" by blast
    from process_item_processing_error [OF this]
    show "os ! i = Inl \<lparr>item = xs ! i, error = m, code = ''PROCESSING_ERROR''\<rparr> \<longleftrightarrow>
               (\<exists>u. validate P (xs ! i) (ws ! i) = (Inl (ErrorObj m), u)) \<or>
               (\<exists>v w1 u. validate P (xs ! i) (ws ! i) = (Inr v, w1) \<and> isValid v \<and>
                   applyBusinessRules P (xs ! i) w1 = (Inl (ErrorObj m), u))" .
  qed
  with len pr er show "\<exists>os ws. length os = length xs \<and> length ws = Suc (length xs) \<and>
         ws ! 0 = snd (now w) \<and>
         ProcessingResult.errors r = map projl (filter isl os) \<and>
         processed r = map projr (filter (\<lambda>z. \<not> isl z) os) \<and>
         (\<forall>i<length xs.
            (\<forall>e. os ! i = Inl e \<longrightarrow> item e = xs ! i) \<and>
            (\<forall>m. os ! i = Inl \<lparr>item = xs ! i, error = m, code = ''PROCESSING_ERROR''\<rparr> \<longleftrightarrow>
               (\<exists>u. validate P (xs ! i) (ws ! i) = (Inl (ErrorObj m), u)) \<or>
               (\<exists>v w1 u. validate P (xs ! i) (ws ! i) = (Inr v, w1) \<and> isValid v \<and>
                   applyBusinessRules P (xs ! i) w1 = (Inl (ErrorObj m), u))))"
    by blast
next
  show "applyBusinessRules P x u = (Inl t, u') \<longleftrightarrow>
      (\<exists>k<length (businessRules P). \<exists>y uk.
          apply_rules (take k (businessRules P)) x u = (Inr y, uk) \<and>
          apply' (businessRules P ! k) y uk = (Inl t, u'))"
    unfolding applyBusinessRules_def by (rule apply_rules_Inl)
next
  assume run: "event_process now V ys w = (Inr r', w'')"
  from event_process_trace [OF run] obtain os ws where
    len: "length os = length ys" "length ws = Suc (length ys)" "ws ! 0 = snd (now w)" and
    pr: "processed r' = map projr (filter (\<lambda>z. \<not> isl z) os)" and
    er: "ProcessingResult.errors r' = map projl (filter isl os)" and
    st: "\<forall>i<length ys. event_process_item V (ys ! i) ([], []) (ws ! i) =
            (Inr (map projr (filter (\<lambda>z. \<not> isl z) [os ! i]), map projl (filter isl [os ! i])),
             ws ! Suc i)"
    by blast
  have "\<forall>i<length ys.
            (\<forall>e. os ! i = Inl e \<longrightarrow> item e = ys ! i) \<and>
            (\<forall>m. os ! i = Inl \<lparr>item = ys ! i, error = m, code = ''PROCESSING_ERROR''\<rparr> \<longleftrightarrow>
               (\<exists>u. V (ys ! i) (ws ! i) = (Inl (ErrorObj m), u)))"
  proof (intro allI impI conjI)
    fix i e assume "i < length ys" "os ! i = Inl e"
    with st event_process_item_outcome [of V "ys ! i" "ws ! i" "os ! i" "ws ! Suc i"]
    show "item e = ys ! i" by simp
  next
    fix i m assume "i < length ys"
    with st have "event_process_item V (ys ! i) ([], []) (ws ! i) =
            (Inr (map projr (filter (\<lambda>z. \<not> isl z) [os ! i]), map projl (filter isl [os ! i])),
             ws ! Suc i)" by blast
    from event_process_item_processing_error [OF this]
    show "os ! i = Inl \<lparr>item = ys ! i, error = m, code = ''PROCESSING_ERROR''\<rparr> \<longleftrightarrow>
               (\<exists>u. V (ys ! i) (ws ! i) = (Inl (ErrorObj m), u))" .
  qed
  with len pr er show "\<exists>os ws. length os = length ys \<and> length ws = Suc (length ys) \<and>
         ws ! 0 = snd (now w) \<and>
         ProcessingResult.errors r' = map projl (filter isl os) \<and>
         processed r' = map projr (filter (\<lambda>z. \<not> isl z) os) \<and>
         (\<forall>i<length ys.
            (\<forall>e. os ! i = Inl e \<longrightarrow> item e = ys ! i) \<and>
            (\<forall>m. os ! i = Inl \<lparr>item = ys ! i, error = m, code = ''PROCESSING_ERROR''\<rparr> \<longleftrightarrow>
               (\<exists>u. V (ys ! i) (ws ! i) = (Inl (ErrorObj m), u))))"
    by blast
qed

theorem processing_error_iff_fault_witness:
  "process tick failing_processor users 100 = (Inr failing_users_result, 102) \<and>
   event_process tick failing_validator loginEvents 100 = (Inr failing_events_result, 102) \<and>
   (\<exists>os ws. length os = length users \<and> length ws = Suc (length users) \<and>
         ws ! 0 = snd (tick 100) \<and>
         ProcessingResult.errors failing_users_result = map projl (filter isl os) \<and>
         processed failing_users_result = map projr (filter (\<lambda>z. \<not> isl z) os) \<and>
         (\<forall>i<length users.
            (\<forall>e. os ! i = Inl e \<longrightarrow> item e = users ! i) \<and>
            (\<forall>m. os ! i = Inl \<lparr>item = users ! i, error = m, code = ''PROCESSING_ERROR''\<rparr> \<longleftrightarrow>
               (\<exists>u. validate failing_processor (users ! i) (ws ! i) = (Inl (ErrorObj m), u)) \<or>
               (\<exists>v w1 u. validate failing_processor (users ! i) (ws ! i) = (Inr v, w1) \<and>
                   isValid v \<and>
                   applyBusinessRules failing_processor (users ! i) w1 = (Inl (ErrorObj m), u))))) \<and>
   (\<exists>os ws. length os = length loginEvents \<and> length ws = Suc (length loginEvents) \<and>
         ws ! 0 = snd (tick 100) \<and>
         ProcessingResult.errors failing_events_result = map projl (filter isl os) \<and>
         processed failing_events_result = map projr (filter (\<lambda>z. \<not> isl z) os) \<and>
         (\<forall>i<length loginEvents.
            (\<forall>e. os ! i = Inl e \<longrightarrow> item e = loginEvents ! i) \<and>
            (\<forall>m. os ! i = Inl \<lparr>item = loginEvents ! i, error = m, code = ''PROCESSING_ERROR''\<rparr> \<longleftrightarrow>
               (\<exists>u. failing_validator (loginEvents ! i) (ws ! i) = (Inl (ErrorObj m), u)))))"
  using processing_error_iff_fault [of tick failing_processor users 100 failing_users_result 102
      "users ! 0" 100 Nullish 100 failing_validator loginEvents failing_events_result 102]
    failing_users_run failing_events_run
  by blast

text \<open>
  C5. The \<^verbatim>\<open>try\<close> statement around each item is there to capture every fault, but its
  handler reads \<^verbatim>\<open>(error as Error).message\<close> outside any \<^verbatim>\<open>try\<close>: when a rule (or the
  validator) throws \<^verbatim>\<open>null\<close> or \<^verbatim>\<open>undefined\<close>, as a rule that ends in \<^verbatim>\<open>Promise.reject()\<close> does,
  that read raises a \<^verbatim>\<open>TypeError\<close>, and \<^verbatim>\<open>process\<close> raises it to its caller and returns no
  result.
\<close>

theorem process_raises_on_nullish:
  "process tick rejecting_processor users 100 = (Inl TypeError, 101) \<and>
   event_process tick rejecting_validator loginEvents 100 = (Inl TypeError, 101)"
  by (intro conjI; code_simp)

text \<open>
  C6. In a returned result, the outcome of input position \<open>i\<close> is the processed value \<open>p\<close>
  exactly when the item was valid and \<^verbatim>\<open>applyBusinessRules\<close> returned \<open>p\<close> for it, and
  \<^verbatim>\<open>processed\<close> is the list of these values. \<^verbatim>\<open>applyBusinessRules\<close> returns \<open>p\<close> exactly when the
  rules, taken in the order of \<^verbatim>\<open>businessRules\<close>, each return on the value and in the world the
  rule before left, the first on the item, and \<open>p\<close> is what the last returns. The rules of
  \<^verbatim>\<open>UserProcessor\<close> are \<^verbatim>\<open>normalizeEmail\<close> and then \<^verbatim>\<open>updateTimestamp\<close>: a valid user comes out
  with the email lower-cased and trimmed and with the time stamp read from the clock after
  that.
\<close>

theorem rules_applied_in_declaration_order:
  "(process now P xs w = (Inr r, w') \<longrightarrow>
      (\<exists>os ws. length os = length xs \<and> length ws = Suc (length xs) \<and>
         ws ! 0 = snd (now w) \<and>
         ProcessingResult.errors r = map projl (filter isl os) \<and>
         processed r = map projr (filter (\<lambda>z. \<not> isl z) os) \<and>
         (\<forall>i<length xs. \<forall>p. os ! i = Inr p \<longleftrightarrow>
            (\<exists>v w1. validate P (xs ! i) (ws ! i) = (Inr v, w1) \<and> isValid v \<and>
                applyBusinessRules P (xs ! i) w1 = (Inr p, ws ! Suc i))))) \<and>
   (truthy (Entity.id' y) \<and> truthy (createdAt y) \<and> truthy (updatedAt y) \<and>
    includes' (email y) ''@'' \<and> name' y \<noteq> [] \<longrightarrow>
      (\<exists>r w'. process now (UserProcessor now) [y] w = (Inr r, w') \<and>
         processed r = [y\<lparr>email := trim (toLowerCase (email y)),
                          updatedAt := JDate (fst (now (snd (now w))))\<rparr>] \<and>
         ProcessingResult.errors r = [])) \<and>
   (applyBusinessRules P x u = (Inr p, u') \<longleftrightarrow>
      (\<exists>vs us. length vs = Suc (length (businessRules P)) \<and>
         length us = Suc (length (businessRules P)) \<and>
         vs ! 0 = x \<and> us ! 0 = u \<and>
         vs ! length (businessRules P) = p \<and> us ! length (businessRules P) = u' \<and>
         (\<forall>k<length (businessRules P).
            apply' (businessRules P ! k) (vs ! k) (us ! k) = (Inr (vs ! Suc k), us ! Suc k)))) \<and>
   businessRules (UserProcessor now) = [normalizeEmail, updateTimestamp now] \<and>
   apply' normalizeEmail y u = (Inr (y\<lparr>email := trim (toLowerCase (email y))\<rparr>), u) \<and>
   apply' (updateTimestamp now) y u = (Inr (y\<lparr>updatedAt := JDate (fst (now u))\<rparr>), snd (now u)) \<and>
   applyBusinessRules (UserProcessor now) y u =
     (Inr (y\<lparr>email := trim (toLowerCase (email y)), updatedAt := JDate (fst (now u))\<rparr>),
      snd (now u))"
proof (intro conjI impI)
  assume run: "process now P xs w = (Inr r, w')"
  from process_trace [OF run] obtain os ws where
    len: "length os = length xs" "length ws = Suc (length xs)" "ws ! 0 = snd (now w)" and
    er: "ProcessingResult.errors r = map projl (filter isl os)" and
    pr: "processed r = map projr (filter (\<lambda>z. \<not> isl z) os)" and
    st: "\<forall>i<length xs. process_item P (xs ! i) ([], []) (ws ! i) =
            (Inr (map projr (filter (\<lambda>z. \<not> isl z) [os ! i]), map projl (filter isl [os ! i])),
             ws ! Suc i)"
    by blast
  have each: "\<forall>i<length xs. \<forall>p. os ! i = Inr p \<longleftrightarrow>
            (\<exists>v w1. validate P (xs ! i) (ws ! i) = (Inr v, w1) \<and> isValid v \<and>
                applyBusinessRules P (xs ! i) w1 = (Inr p, ws ! Suc i))"
  proof (intro allI impI)
    fix i p assume "i < length xs"
    with st have "process_item P (xs ! i) ([], []) (ws ! i) =
            (Inr (map projr (filter (\<lambda>z. \<not> isl z) [os ! i]), map projl (filter isl [os ! i])),
             ws ! Suc i)" by blast
    from process_item_processed [OF this]
    show "os ! i = Inr p \<longleftrightarrow>
            (\<exists>v w1. validate P (xs ! i) (ws ! i) = (Inr v, w1) \<and> isValid v \<and>
                applyBusinessRules P (xs ! i) w1 = (Inr p, ws ! Suc i))" .
  qed
  show "\<exists>os ws. length os = length xs \<and> length ws = Suc (length xs) \<and>
         ws ! 0 = snd (now w) \<and>
         ProcessingResult.errors r = map projl (filter isl os) \<and>
         processed r = map projr (filter (\<lambda>z. \<not> isl z) os) \<and>
         (\<forall>i<length xs. \<forall>p. os ! i = Inr p \<longleftrightarrow>
            (\<exists>v w1. validate P (xs ! i) (ws ! i) = (Inr v, w1) \<and> isValid v \<and>
                applyBusinessRules P (xs ! i) w1 = (Inr p, ws ! Suc i)))"
    by (intro exI [of _ os] exI [of _ ws] conjI) (rule len er pr each)+
next
  assume "truthy (Entity.id' y) \<and> truthy (createdAt y) \<and> truthy (updatedAt y) \<and>
    includes' (email y) ''@'' \<and> name' y \<noteq> []"
  then show "\<exists>r w'. process now (UserProcessor now) [y] w = (Inr r, w') \<and>
         processed r = [y\<lparr>email := trim (toLowerCase (email y)),
                          updatedAt := JDate (fst (now (snd (now w))))\<rparr>] \<and>
         ProcessingResult.errors r = []"
    using UserProcessor_process_valid [of y now w] by blast
next
  show "applyBusinessRules P x u = (Inr p, u') \<longleftrightarrow>
      (\<exists>vs us. length vs = Suc (length (businessRules P)) \<and>
         length us = Suc (length (businessRules P)) \<and>
         vs ! 0 = x \<and> us ! 0 = u \<and>
         vs ! length (businessRules P) = p \<and> us ! length (businessRules P) = u' \<and>
         (\<forall>k<length (businessRules P).
            apply' (businessRules P ! k) (vs ! k) (us ! k) = (Inr (vs ! Suc k), us ! Suc k)))"
    unfolding applyBusinessRules_def by (rule apply_rules_chain)
next
  show "businessRules (UserProcessor now) = [normalizeEmail, updateTimestamp now]"
    by (simp add: UserProcessor_def)
next
  show "apply' normalizeEmail y u = (Inr (y\<lparr>email := trim (toLowerCase (email y))\<rparr>), u)"
    by (simp add: normalizeEmail_def)
next
  show "apply' (updateTimestamp now) y u =
      (Inr (y\<lparr>updatedAt := JDate (fst (now u))\<rparr>), snd (now u))"
    by (simp add: updateTimestamp_def split: prod.splits)
next
  show "applyBusinessRules (UserProcessor now) y u =
     (Inr (y\<lparr>email := trim (toLowerCase (email y)), updatedAt := JDate (fst (now u))\<rparr>),
      snd (now u))"
    by (rule UserProcessor_rules)
qed

theorem rules_applied_in_declaration_order_witness:
  "process tick (UserProcessor tick) users 100 = (Inr users_result, 103) \<and>
   processed users_result =
     [(users ! 0)\<lparr>email := ''john@example.com'', updatedAt := JDate 101\<rparr>] \<and>
   (\<exists>os ws. length os = length users \<and> length ws = Suc (length users) \<and>
         ws ! 0 = snd (tick 100) \<and>
         ProcessingResult.errors users_result = map projl (filter isl os) \<and>
         processed users_result = map projr (filter (\<lambda>z. \<not> isl z) os) \<and>
         (\<forall>i<length users. \<forall>p. os ! i = Inr p \<longleftrightarrow>
            (\<exists>v w1. validate (UserProcessor tick) (users ! i) (ws ! i) = (Inr v, w1) \<and>
                isValid v \<and>
                applyBusinessRules (UserProcessor tick) (users ! i) w1 = (Inr p, ws ! Suc i)))) \<and>
   email user_padded = [CHR 0xA0, CHR 0x20, CHR 0x09, CHR 0x0B] @ ''JOHN.Z[A]@'' @
        [CHR 0xC9, CHR 0xD7, CHR 0xDE, CHR 0xDF] @ ''xample.COM'' @
        [CHR 0x0C, CHR 0x0D, CHR 0x20, CHR 0x0A] \<and>
   truthy (Entity.id' user_padded) \<and> truthy (createdAt user_padded) \<and>
   truthy (updatedAt user_padded) \<and> includes' (email user_padded) ''@'' \<and>
   name' user_padded \<noteq> [] \<and>
   (\<exists>r w'. process tick (UserProcessor tick) [user_padded] 100 = (Inr r, w') \<and>
         processed r = [user_padded\<lparr>email := ''john.z[a]@'' @ [CHR 0xE9, CHR 0xD7, CHR 0xFE, CHR 0xDF] @
                                     ''xample.com'',
                        updatedAt := JDate 101\<rparr>] \<and>
         ProcessingResult.errors r = [])"
proof -
  note T = rules_applied_in_declaration_order [where now = tick and P = "UserProcessor tick"
      and xs = users and w = 100 and r = users_result and w' = 103 and y = user_padded]
  have a: "processed users_result =
     [(users ! 0)\<lparr>email := ''john@example.com'', updatedAt := JDate 101\<rparr>]"
    by (simp add: users_result_def)
  have h: "truthy (Entity.id' user_padded) \<and> truthy (createdAt user_padded) \<and>
    truthy (updatedAt user_padded) \<and> includes' (email user_padded) ''@'' \<and>
    name' user_padded \<noteq> []"
    by code_simp
  have e: "email user_padded =
      [CHR 0xA0, CHR 0x20, CHR 0x09, CHR 0x0B] @ ''JOHN.Z[A]@'' @
        [CHR 0xC9, CHR 0xD7, CHR 0xDE, CHR 0xDF] @ ''xample.COM'' @
        [CHR 0x0C, CHR 0x0D, CHR 0x20, CHR 0x0A]"
    by (simp add: user_padded_def)
  have n: "trim (toLowerCase (email user_padded)) =
      ''john.z[a]@'' @ [CHR 0xE9, CHR 0xD7, CHR 0xFE, CHR 0xDF] @ ''xample.com''"
    by code_simp
  have t: "fst (tick (snd (tick 100))) = 101"
    by (simp add: tick_def)
  from T [THEN conjunct2, THEN conjunct1, THEN mp, OF h]
  have c: "\<exists>r w'. process tick (UserProcessor tick) [user_padded] 100 = (Inr r, w') \<and>
         processed r = [user_padded\<lparr>email := ''john.z[a]@'' @ [CHR 0xE9, CHR 0xD7, CHR 0xFE, CHR 0xDF] @
                                     ''xample.com'',
                        updatedAt := JDate 101\<rparr>] \<and>
         ProcessingResult.errors r = []"
    unfolding n t .
  from T [THEN conjunct1, THEN mp, OF users_run] users_run a e h c
  show ?thesis by (intro conjI) blast+
qed

text \<open>
  C7, as stated, fails for a mapper that reads more than its first parameter:
  \<^verbatim>\<open>data.map(transformer)\<close> calls the mapper with the item, its index and the array, so the
  elements of the result are \<^verbatim>\<open>f(items[i], i, items)\<close> and not \<^verbatim>\<open>f(items[i])\<close>. The mapper
  \<^verbatim>\<open>(item, index?) => index\<close> has the type \<^verbatim>\<open>transform\<close> asks for; called with an item alone
  it returns \<^verbatim>\<open>undefined\<close>, and \<^verbatim>\<open>transform\<close> returns the indices.
\<close>

theorem transform_passes_index_and_array:
  "transform (UserProcessor tick) users index_mapper 100 = (Inr [Some 0, Some 1], 100) \<and>
   index_mapper (users ! 0) None 100 = (Inr None, 100) \<and>
   index_mapper (users ! 1) None 100 = (Inr None, 100) \<and>
   event_transform loginEvents index_mapper 100 = (Inr [Some 0, Some 1], 100) \<and>
   index_mapper (loginEvents ! 1) None 100 = (Inr None, 100)"
  by (intro conjI; code_simp)

text \<open>
  C7, amended. A list that \<^verbatim>\<open>transform\<close> returns is as long as the input, and its \<open>i\<close>-th
  element is what the mapper returned when called with the \<open>i\<close>-th item, the index \<open>i\<close> and
  the input array, the calls made in order. For a mapper that is a function \<open>g\<close> of these
  arguments \<^verbatim>\<open>transform\<close> returns, with the \<open>i\<close>-th element \<open>g\<close> of them; for a mapper that is a
  function \<open>h\<close> of the item alone, the \<open>i\<close>-th element is \<open>h\<close> of the \<open>i\<close>-th item. A fault of
  the mapper is not caught: when the mapper returns on the items before the \<open>n\<close>-th and
  throws on the \<open>n\<close>-th, \<^verbatim>\<open>transform\<close> throws the same value. The result does not depend on
  the processor.
\<close>

theorem transform_maps_in_order:
  "(transform this xs f w = (Inr zs, w') \<longrightarrow>
      length zs = length xs \<and>
      (\<exists>ws. length ws = Suc (length xs) \<and> ws ! 0 = w \<and> ws ! length xs = w' \<and>
         (\<forall>i<length xs. f (xs ! i) (Some (i, xs)) (ws ! i) = (Inr (zs ! i), ws ! Suc i)))) \<and>
   (event_transform ys f' w = (Inr zs', w'') \<longrightarrow>
      length zs' = length ys \<and>
      (\<exists>ws. length ws = Suc (length ys) \<and> ws ! 0 = w \<and> ws ! length ys = w'' \<and>
         (\<forall>i<length ys. f' (ys ! i) (Some (i, ys)) (ws ! i) = (Inr (zs' ! i), ws ! Suc i)))) \<and>
   (\<exists>zs. transform this xs (\<lambda>x extra u. (Inr (g x extra), u)) w = (Inr zs, w) \<and>
      length zs = length xs \<and> (\<forall>i<length xs. zs ! i = g (xs ! i) (Some (i, xs)))) \<and>
   (\<exists>zs. event_transform ys (\<lambda>y extra u. (Inr (g' y extra), u)) w = (Inr zs, w) \<and>
      length zs = length ys \<and> (\<forall>i<length ys. zs ! i = g' (ys ! i) (Some (i, ys)))) \<and>
   (\<exists>zs. transform this xs (\<lambda>x extra u. (Inr (h x), u)) w = (Inr zs, w) \<and>
      length zs = length xs \<and> (\<forall>i<length xs. zs ! i = h (xs ! i))) \<and>
   (\<exists>zs. event_transform ys (\<lambda>y extra u. (Inr (h' y), u)) w = (Inr zs, w) \<and>
      length zs = length ys \<and> (\<forall>i<length ys. zs ! i = h' (ys ! i))) \<and>
   (n < length xs \<and> length us = Suc n \<and> us ! 0 = w \<and>
    (\<forall>i<n. \<exists>z. f (xs ! i) (Some (i, xs)) (us ! i) = (Inr z, us ! Suc i)) \<and>
    f (xs ! n) (Some (n, xs)) (us ! n) = (Inl e, w') \<longrightarrow>
      transform this xs f w = (Inl e, w')) \<and>
   (n < length ys \<and> length us = Suc n \<and> us ! 0 = w \<and>
    (\<forall>i<n. \<exists>z. f' (ys ! i) (Some (i, ys)) (us ! i) = (Inr z, us ! Suc i)) \<and>
    f' (ys ! n) (Some (n, ys)) (us ! n) = (Inl e, w'') \<longrightarrow>
      event_transform ys f' w = (Inl e, w'')) \<and>
   transform this xs f w = transform that xs f w"
proof (intro conjI impI)
  assume "transform this xs f w = (Inr zs, w')"
  then have "array_map_from f xs 0 xs w = (Inr zs, w')"
    by (simp add: transform_def array_map_def)
  from array_map_from_trace [OF this]
  show "length zs = length xs"
    and "\<exists>ws. length ws = Suc (length xs) \<and> ws ! 0 = w \<and> ws ! length xs = w' \<and>
         (\<forall>i<length xs. f (xs ! i) (Some (i, xs)) (ws ! i) = (Inr (zs ! i), ws ! Suc i))"
    by simp_all
next
  assume "event_transform ys f' w = (Inr zs', w'')"
  then have "array_map_from f' ys 0 ys w = (Inr zs', w'')"
    by (simp add: event_transform_def array_map_def)
  from array_map_from_trace [OF this]
  show "length zs' = length ys"
    and "\<exists>ws. length ws = Suc (length ys) \<and> ws ! 0 = w \<and> ws ! length ys = w'' \<and>
         (\<forall>i<length ys. f' (ys ! i) (Some (i, ys)) (ws ! i) = (Inr (zs' ! i), ws ! Suc i))"
    by simp_all
next
  from array_map_from_pure [of g xs 0 xs w]
  show "\<exists>zs. transform this xs (\<lambda>x extra u. (Inr (g x extra), u)) w = (Inr zs, w) \<and>
      length zs = length xs \<and> (\<forall>i<length xs. zs ! i = g (xs ! i) (Some (i, xs)))"
    by (simp add: transform_def array_map_def)
next
  from array_map_from_pure [of g' ys 0 ys w]
  show "\<exists>zs. event_transform ys (\<lambda>y extra u. (Inr (g' y extra), u)) w = (Inr zs, w) \<and>
      length zs = length ys \<and> (\<forall>i<length ys. zs ! i = g' (ys ! i) (Some (i, ys)))"
    by (simp add: event_transform_def array_map_def)
next
  from array_map_from_pure [of "\<lambda>x extra. h x" xs 0 xs w]
  show "\<exists>zs. transform this xs (\<lambda>x extra u. (Inr (h x), u)) w = (Inr zs, w) \<and>
      length zs = length xs \<and> (\<forall>i<length xs. zs ! i = h (xs ! i))"
    by (simp add: transform_def array_map_def)
next
  from array_map_from_pure [of "\<lambda>y extra. h' y" ys 0 ys w]
  show "\<exists>zs. event_transform ys (\<lambda>y extra u. (Inr (h' y), u)) w = (Inr zs, w) \<and>
      length zs = length ys \<and> (\<forall>i<length ys. zs ! i = h' (ys ! i))"
    by (simp add: event_transform_def array_map_def)
next
  assume a: "n < length xs \<and> length us = Suc n \<and> us ! 0 = w \<and>
    (\<forall>i<n. \<exists>z. f (xs ! i) (Some (i, xs)) (us ! i) = (Inr z, us ! Suc i)) \<and>
    f (xs ! n) (Some (n, xs)) (us ! n) = (Inl e, w')"
  have "array_map_from f xs 0 xs w = (Inl e, w')"
    by (rule array_map_from_fault [where n = n and us = "\<lambda>i. us ! i"]) (use a in simp_all)
  then show "transform this xs f w = (Inl e, w')"
    by (simp add: transform_def array_map_def)
next
  assume a: "n < length ys \<and> length us = Suc n \<and> us ! 0 = w \<and>
    (\<forall>i<n. \<exists>z. f' (ys ! i) (Some (i, ys)) (us ! i) = (Inr z, us ! Suc i)) \<and>
    f' (ys ! n) (Some (n, ys)) (us ! n) = (Inl e, w'')"
  have "array_map_from f' ys 0 ys w = (Inl e, w'')"
    by (rule array_map_from_fault [where n = n and us = "\<lambda>i. us ! i"]) (use a in simp_all)
  then show "event_transform ys f' w = (Inl e, w'')"
    by (simp add: event_transform_def array_map_def)
next
  show "transform this xs f w = transform that xs f w"
    by (simp add: transform_def)
qed

theorem transform_maps_in_order_witness:
  "transform (UserProcessor tick) users userSummary 100 =
     (Inr [(JStr ''user1'', ''John Doe'', False), (JStr ''user2'', '''', True)], 100) \<and>
   length [(JStr ''user1'', ''John Doe'', False), (JStr ''user2'', '''', True)] = length users \<and>
   (\<exists>ws. length ws = Suc (length users) \<and> ws ! 0 = 100 \<and> ws ! length users = 100 \<and>
      (\<forall>i<length users. userSummary (users ! i) (Some (i, users)) (ws ! i) =
         (Inr ([(JStr ''user1'', ''John Doe'', False), (JStr ''user2'', '''', True)] ! i),
          ws ! Suc i))) \<and>
   throwing_mapper (users ! 0) (Some (0, users)) 100 = (Inr ''John Doe'', 101) \<and>
   throwing_mapper (users ! 1) (Some (1, users)) 101 =
     (Inl (ErrorObj ''no summary for an admin''), 102) \<and>
   transform (UserProcessor tick) users throwing_mapper 100 =
     (Inl (ErrorObj ''no summary for an admin''), 102)"
proof -
  note T = transform_maps_in_order [where this = "UserProcessor tick" and xs = users
      and f = userSummary and w = 100 and w' = 100
      and zs = "[(JStr ''user1'', ''John Doe'', False), (JStr ''user2'', '''', True)]"]
  note U = transform_maps_in_order [where this = "UserProcessor tick" and xs = users
      and f = throwing_mapper and w = 100 and n = 1 and us = "[100, 101]"
      and e = "ErrorObj ''no summary for an admin''" and w' = 102]
  from T [THEN conjunct1, THEN mp, OF userSummary_run]
  have a: "length [(JStr ''user1'', ''John Doe'', False), (JStr ''user2'', '''', True)] =
      length users \<and>
   (\<exists>ws. length ws = Suc (length users) \<and> ws ! 0 = 100 \<and> ws ! length users = 100 \<and>
      (\<forall>i<length users. userSummary (users ! i) (Some (i, users)) (ws ! i) =
         (Inr ([(JStr ''user1'', ''John Doe'', False), (JStr ''user2'', '''', True)] ! i),
          ws ! Suc i)))" .
  have l: "(1 :: nat) < length users" by code_simp
  have h: "1 < length users \<and> length [100, 101 :: int] = Suc 1 \<and> [100, 101 :: int] ! 0 = 100 \<and>
    (\<forall>i<1. \<exists>z. throwing_mapper (users ! i) (Some (i, users)) ([100, 101] ! i) =
        (Inr z, [100, 101] ! Suc i)) \<and>
    throwing_mapper (users ! 1) (Some (1, users)) ([100, 101] ! 1) =
      (Inl (ErrorObj ''no summary for an admin''), 102)"
    using throwing_mapper_steps l by simp
  from U [THEN conjunct2, THEN conjunct2, THEN conjunct2, THEN conjunct2, THEN conjunct2,
      THEN conjunct2, THEN conjunct1, THEN mp, OF h]
  have b: "transform (UserProcessor tick) users throwing_mapper 100 =
     (Inl (ErrorObj ''no summary for an admin''), 102)" .
  from a b userSummary_run throwing_mapper_steps
  show ?thesis by (intro conjI) blast+
qed

text \<open>
  C8. When the validator is a pure function (its outcome depends on the item only and it
  leaves the world as it is), so is \<^verbatim>\<open>validate\<close>: it changes nothing, a second call on the
  same item gives the outcome of the first, and so does a call at any other moment.
\<close>

theorem validate_idempotent:
  "((\<forall>x u. validator P x u = (g x, u)) \<longrightarrow>
      snd (validate P x w) = w \<and>
      validate P x (snd (validate P x w)) = validate P x w \<and>
      fst (validate P x w') = fst (validate P x w)) \<and>
   ((\<forall>y u. V y u = (h y, u)) \<longrightarrow>
      snd (event_validate V y w) = w \<and>
      event_validate V y (snd (event_validate V y w)) = event_validate V y w \<and>
      fst (event_validate V y w') = fst (event_validate V y w))"
proof (intro conjI impI)
  assume p: "\<forall>x u. validator P x u = (g x, u)"
  then have s: "\<And>u. snd (validate P x u) = u"
    by (simp add: validate_def Let_def split: sum.splits)
  from s show "snd (validate P x w) = w" .
  from s show "validate P x (snd (validate P x w)) = validate P x w" by simp
  from p show "fst (validate P x w') = fst (validate P x w)"
    by (simp add: validate_def Let_def split: sum.splits)
next
  assume p: "\<forall>y u. V y u = (h y, u)"
  then have s: "\<And>u. snd (event_validate V y u) = u"
    by (simp add: event_validate_def Let_def split: sum.splits)
  from s show "snd (event_validate V y w) = w" .
  from s show "event_validate V y (snd (event_validate V y w)) = event_validate V y w" by simp
  from p show "fst (event_validate V y w') = fst (event_validate V y w)"
    by (simp add: event_validate_def Let_def split: sum.splits)
qed

theorem validate_idempotent_witness:
  "validate (UserProcessor tick) (users ! 1) 100 =
     (Inr \<lparr>isValid = False,
           ValidationResult.errors = [''Invalid email format'', ''Name is required'']\<rparr>, 100) \<and>
   validate (UserProcessor tick) (users ! 1)
       (snd (validate (UserProcessor tick) (users ! 1) 100)) =
     validate (UserProcessor tick) (users ! 1) 100 \<and>
   fst (validate (UserProcessor tick) (users ! 1) 7) =
     fst (validate (UserProcessor tick) (users ! 1) 100) \<and>
   event_validate userLoginValidator (loginEvents ! 1) (100 :: int) =
     (Inr \<lparr>isValid = False, ValidationResult.errors = [''User ID is required'']\<rparr>, 100) \<and>
   event_validate userLoginValidator (loginEvents ! 1)
       (snd (event_validate userLoginValidator (loginEvents ! 1) (100 :: int))) =
     event_validate userLoginValidator (loginEvents ! 1) 100"
proof -
  have a: "\<forall>x u. validator (UserProcessor tick) x u =
      (fst (validator (UserProcessor tick) x 0), u)"
    by (simp add: UserProcessor_def)
  have b: "\<forall>y u. userLoginValidator (y :: userLoginEvent) (u :: int) =
      (fst (userLoginValidator y (0 :: int)), u)"
    by (simp add: userLoginValidator_def Let_def)
  note T = validate_idempotent [where P = "UserProcessor tick" and x = "users ! 1" and w = 100
      and w' = 7 and V = userLoginValidator and y = "loginEvents ! 1"]
  have c: "validate (UserProcessor tick) (users ! 1) 100 =
     (Inr \<lparr>isValid = False,
           ValidationResult.errors = [''Invalid email format'', ''Name is required'']\<rparr>, 100)"
    by code_simp
  have d: "event_validate userLoginValidator (loginEvents ! 1) (100 :: int) =
     (Inr \<lparr>isValid = False, ValidationResult.errors = [''User ID is required'']\<rparr>, 100)"
    by code_simp
  from T [THEN conjunct1, THEN mp, OF a] T [THEN conjunct2, THEN mp, OF b] c d
  show ?thesis by (intro conjI) blast+
qed

text \<open>
  C9. \<^verbatim>\<open>validate\<close> returns exactly when the validator does, and its outcome is then this:
  the error list is the messages of the structural checks that fail, in the order of the
  checks, followed by the validator's error strings when the validator's flag is false (and
  by nothing when it is true), and the flag is whether that list is empty. The validator's
  flag has no other effect: when the validator answers invalid with no error string and the
  structural checks find nothing, \<^verbatim>\<open>validate\<close> answers valid. The validator of
  \<^verbatim>\<open>genericEventProcessor\<close> never gives an error string, so for it the error list of
  \<^verbatim>\<open>validate\<close> is the structural messages alone.
\<close>

theorem validity_is_empty_error_list:
  "(validate P x w = (Inr v, w') \<longleftrightarrow>
      (\<exists>cv. validator P x w = (Inr cv, w') \<and>
         v = \<lparr>isValid =
                ((if \<not> truthy (Entity.id' x) then [''ID is required''] else []) @
                 (if \<not> truthy (createdAt x) then [''Created date is required''] else []) @
                 (if \<not> truthy (updatedAt x) then [''Updated date is required''] else []) @
                 (if \<not> isValid cv then ValidationResult.errors cv else []) = []),
              ValidationResult.errors =
                 (if \<not> truthy (Entity.id' x) then [''ID is required''] else []) @
                 (if \<not> truthy (createdAt x) then [''Created date is required''] else []) @
                 (if \<not> truthy (updatedAt x) then [''Updated date is required''] else []) @
                 (if \<not> isValid cv then ValidationResult.errors cv else [])\<rparr>)) \<and>
   (event_validate V y w = (Inr v', w'') \<longleftrightarrow>
      (\<exists>cv. V y w = (Inr cv, w'') \<and>
         v' = \<lparr>isValid =
                 ((if \<not> truthy (BaseEvent.id' y) then [''ID is required''] else []) @
                  (if \<not> truthy (eventType y) then [''Event type is required''] else []) @
                  (if \<not> isValid cv then ValidationResult.errors cv else []) = []),
               ValidationResult.errors =
                  (if \<not> truthy (BaseEvent.id' y) then [''ID is required''] else []) @
                  (if \<not> truthy (eventType y) then [''Event type is required''] else []) @
                  (if \<not> isValid cv then ValidationResult.errors cv else [])\<rparr>)) \<and>
   (validate P x w = (Inr v, w') \<longrightarrow> isValid v = (ValidationResult.errors v = [])) \<and>
   (event_validate V y w = (Inr v', w'') \<longrightarrow> isValid v' = (ValidationResult.errors v' = [])) \<and>
   (validator P x w = (Inr \<lparr>isValid = False, ValidationResult.errors = []\<rparr>, w') \<and>
    truthy (Entity.id' x) \<and> truthy (createdAt x) \<and> truthy (updatedAt x) \<longrightarrow>
      validate P x w = (Inr \<lparr>isValid = True, ValidationResult.errors = []\<rparr>, w')) \<and>
   (V y w = (Inr \<lparr>isValid = False, ValidationResult.errors = []\<rparr>, w'') \<and>
    truthy (BaseEvent.id' y) \<and> truthy (eventType y) \<longrightarrow>
      event_validate V y w = (Inr \<lparr>isValid = True, ValidationResult.errors = []\<rparr>, w'')) \<and>
   genericEventValidator z w =
     (Inr \<lparr>isValid = (truthy (BaseEvent.id' z) \<and> truthy (eventType z)),
           ValidationResult.errors = []\<rparr>, w) \<and>
   event_validate genericEventValidator z w =
     (Inr \<lparr>isValid = (truthy (BaseEvent.id' z) \<and> truthy (eventType z)),
           ValidationResult.errors =
             (if \<not> truthy (BaseEvent.id' z) then [''ID is required''] else []) @
             (if \<not> truthy (eventType z) then [''Event type is required''] else [])\<rparr>, w)"
proof (intro conjI impI)
  show "validate P x w = (Inr v, w') \<longleftrightarrow>
      (\<exists>cv. validator P x w = (Inr cv, w') \<and>
         v = \<lparr>isValid =
                ((if \<not> truthy (Entity.id' x) then [''ID is required''] else []) @
                 (if \<not> truthy (createdAt x) then [''Created date is required''] else []) @
                 (if \<not> truthy (updatedAt x) then [''Updated date is required''] else []) @
                 (if \<not> isValid cv then ValidationResult.errors cv else []) = []),
              ValidationResult.errors =
                 (if \<not> truthy (Entity.id' x) then [''ID is required''] else []) @
                 (if \<not> truthy (createdAt x) then [''Created date is required''] else []) @
                 (if \<not> truthy (updatedAt x) then [''Updated date is required''] else []) @
                 (if \<not> isValid cv then ValidationResult.errors cv else [])\<rparr>)"
    by (rule validate_Inr)
next
  show "event_validate V y w = (Inr v', w'') \<longleftrightarrow>
      (\<exists>cv. V y w = (Inr cv, w'') \<and>
         v' = \<lparr>isValid =
                 ((if \<not> truthy (BaseEvent.id' y) then [''ID is required''] else []) @
                  (if \<not> truthy (eventType y) then [''Event type is required''] else []) @
                  (if \<not> isValid cv then ValidationResult.errors cv else []) = []),
               ValidationResult.errors =
                  (if \<not> truthy (BaseEvent.id' y) then [''ID is required''] else []) @
                  (if \<not> truthy (eventType y) then [''Event type is required''] else []) @
                  (if \<not> isValid cv then ValidationResult.errors cv else [])\<rparr>)"
    by (rule event_validate_Inr)
next
  assume "validate P x w = (Inr v, w')"
  then show "isValid v = (ValidationResult.errors v = [])"
    unfolding validate_Inr by auto
next
  assume "event_validate V y w = (Inr v', w'')"
  then show "isValid v' = (ValidationResult.errors v' = [])"
    unfolding event_validate_Inr by auto
next
  assume "validator P x w = (Inr \<lparr>isValid = False, ValidationResult.errors = []\<rparr>, w') \<and>
    truthy (Entity.id' x) \<and> truthy (createdAt x) \<and> truthy (updatedAt x)"
  then show "validate P x w = (Inr \<lparr>isValid = True, ValidationResult.errors = []\<rparr>, w')"
    by (simp add: validate_Inr)
next
  assume "V y w = (Inr \<lparr>isValid = False, ValidationResult.errors = []\<rparr>, w'') \<and>
    truthy (BaseEvent.id' y) \<and> truthy (eventType y)"
  then show "event_validate V y w =
      (Inr \<lparr>isValid = True, ValidationResult.errors = []\<rparr>, w'')"
    by (simp add: event_validate_Inr)
next
  show "genericEventValidator z w =
     (Inr \<lparr>isValid = (truthy (BaseEvent.id' z) \<and> truthy (eventType z)),
           ValidationResult.errors = []\<rparr>, w)"
    by (simp add: genericEventValidator_def)
next
  show "event_validate genericEventValidator z w =
     (Inr \<lparr>isValid = (truthy (BaseEvent.id' z) \<and> truthy (eventType z)),
           ValidationResult.errors =
             (if \<not> truthy (BaseEvent.id' z) then [''ID is required''] else []) @
             (if \<not> truthy (eventType z) then [''Event type is required''] else [])\<rparr>, w)"
    by (auto simp: event_validate_Inr genericEventValidator_def)
qed

theorem validity_is_empty_error_list_witness:
  "validator silent_processor (users ! 0) 100 =
     (Inr \<lparr>isValid = False, ValidationResult.errors = []\<rparr>, 100) \<and>
   truthy (Entity.id' (users ! 0)) \<and> truthy (createdAt (users ! 0)) \<and>
   truthy (updatedAt (users ! 0)) \<and>
   validate silent_processor (users ! 0) 100 =
     (Inr \<lparr>isValid = True, ValidationResult.errors = []\<rparr>, 100) \<and>
   validate silent_processor user_emptyId 100 =
     (Inr \<lparr>isValid = False, ValidationResult.errors = [''ID is required'']\<rparr>, 100) \<and>
   validate (UserProcessor tick) (users ! 1) 100 =
     (Inr \<lparr>isValid = False,
           ValidationResult.errors = [''Invalid email format'', ''Name is required'']\<rparr>, 100) \<and>
   silent_validator (loginEvents ! 0) 100 =
     (Inr \<lparr>isValid = False, ValidationResult.errors = []\<rparr>, 100) \<and>
   truthy (BaseEvent.id' (loginEvents ! 0)) \<and> truthy (eventType (loginEvents ! 0)) \<and>
   event_validate silent_validator (loginEvents ! 0) 100 =
     (Inr \<lparr>isValid = True, ValidationResult.errors = []\<rparr>, 100) \<and>
   event_validate userLoginValidator loginEvent_noType (100 :: int) =
     (Inr \<lparr>isValid = False, ValidationResult.errors = [''Event type is required'']\<rparr>, 100) \<and>
   event_validate genericEventValidator loginEvent_noId (100 :: int) =
     (Inr \<lparr>isValid = False, ValidationResult.errors = [''ID is required'']\<rparr>, 100)"
proof -
  have a: "validator silent_processor (users ! 0) 100 =
     (Inr \<lparr>isValid = False, ValidationResult.errors = []\<rparr>, 100) \<and>
   truthy (Entity.id' (users ! 0)) \<and> truthy (createdAt (users ! 0)) \<and>
   truthy (updatedAt (users ! 0))"
    by code_simp
  have b: "silent_validator (loginEvents ! 0) 100 =
     (Inr \<lparr>isValid = False, ValidationResult.errors = []\<rparr>, 100) \<and>
   truthy (BaseEvent.id' (loginEvents ! 0)) \<and> truthy (eventType (loginEvents ! 0))"
    by code_simp
  note T = validity_is_empty_error_list [where P = silent_processor and x = "users ! 0"
      and w = 100 and w' = 100 and V = silent_validator and y = "loginEvents ! 0" and w'' = 100
      and z = loginEvent_noId]
  have c: "validator silent_processor user_emptyId 100 =
      (Inr \<lparr>isValid = False, ValidationResult.errors = []\<rparr>, 100) \<and>
    \<lparr>isValid = False, ValidationResult.errors = [''ID is required'']\<rparr> =
      \<lparr>isValid =
         ((if \<not> truthy (Entity.id' user_emptyId) then [''ID is required''] else []) @
          (if \<not> truthy (createdAt user_emptyId) then [''Created date is required''] else []) @
          (if \<not> truthy (updatedAt user_emptyId) then [''Updated date is required''] else []) @
          (if \<not> isValid \<lparr>isValid = False, ValidationResult.errors = []\<rparr>
           then ValidationResult.errors \<lparr>isValid = False, ValidationResult.errors = []\<rparr>
           else []) = []),
       ValidationResult.errors =
          (if \<not> truthy (Entity.id' user_emptyId) then [''ID is required''] else []) @
          (if \<not> truthy (createdAt user_emptyId) then [''Created date is required''] else []) @
          (if \<not> truthy (updatedAt user_emptyId) then [''Updated date is required''] else []) @
          (if \<not> isValid \<lparr>isValid = False, ValidationResult.errors = []\<rparr>
           then ValidationResult.errors \<lparr>isValid = False, ValidationResult.errors = []\<rparr>
           else [])\<rparr>"
    by code_simp
  have d: "validate silent_processor user_emptyId 100 =
     (Inr \<lparr>isValid = False, ValidationResult.errors = [''ID is required'']\<rparr>, 100)"
    by (rule validity_is_empty_error_list [THEN conjunct1, THEN iffD2, OF exI, OF c])
  have e: "validate (UserProcessor tick) (users ! 1) 100 =
     (Inr \<lparr>isValid = False,
           ValidationResult.errors = [''Invalid email format'', ''Name is required'']\<rparr>, 100)"
    "event_validate userLoginValidator loginEvent_noType (100 :: int) =
     (Inr \<lparr>isValid = False, ValidationResult.errors = [''Event type is required'']\<rparr>, 100)"
    by code_simp+
  have g: "event_validate genericEventValidator loginEvent_noId (100 :: int) =
     (Inr \<lparr>isValid = False, ValidationResult.errors = [''ID is required'']\<rparr>, 100)"
    by code_simp
  from T [THEN conjunct2, THEN conjunct2, THEN conjunct2, THEN conjunct2, THEN conjunct1,
      THEN mp, OF a]
    T [THEN conjunct2, THEN conjunct2, THEN conjunct2, THEN conjunct2, THEN conjunct2,
      THEN conjunct1, THEN mp, OF b]
    a b d e g
  show ?thesis by (intro conjI) blast+
qed

text \<open>
  C10. The empty string, \<^verbatim>\<open>undefined\<close>, \<^verbatim>\<open>null\<close>, \<^verbatim>\<open>0\<close>, \<^verbatim>\<open>NaN\<close> and \<^verbatim>\<open>false\<close> are falsy, and an
  item whose identifier, creation date, update date (or, for an event, identifier or event
  type) is falsy is invalid for \<^verbatim>\<open>validate\<close>, with the message of that field in the error
  list, whenever the validator returns.
\<close>

theorem structural_checks_test_truthiness:
  "\<not> truthy (JStr '''') \<and> \<not> truthy JUndefined \<and> \<not> truthy JNull \<and> \<not> truthy (JNum 0) \<and>
   \<not> truthy JNaN \<and> \<not> truthy (JBool False) \<and>
   (validator P x w = (Inr cv, w') \<and> \<not> truthy (Entity.id' x) \<longrightarrow>
      (\<exists>v. validate P x w = (Inr v, w') \<and> \<not> isValid v \<and>
           ''ID is required'' \<in> set (ValidationResult.errors v))) \<and>
   (validator P x w = (Inr cv, w') \<and> \<not> truthy (createdAt x) \<longrightarrow>
      (\<exists>v. validate P x w = (Inr v, w') \<and> \<not> isValid v \<and>
           ''Created date is required'' \<in> set (ValidationResult.errors v))) \<and>
   (validator P x w = (Inr cv, w') \<and> \<not> truthy (updatedAt x) \<longrightarrow>
      (\<exists>v. validate P x w = (Inr v, w') \<and> \<not> isValid v \<and>
           ''Updated date is required'' \<in> set (ValidationResult.errors v))) \<and>
   (V y w = (Inr cv', w'') \<and> \<not> truthy (BaseEvent.id' y) \<longrightarrow>
      (\<exists>v. event_validate V y w = (Inr v, w'') \<and> \<not> isValid v \<and>
           ''ID is required'' \<in> set (ValidationResult.errors v))) \<and>
   (V y w = (Inr cv', w'') \<and> \<not> truthy (eventType y) \<longrightarrow>
      (\<exists>v. event_validate V y w = (Inr v, w'') \<and> \<not> isValid v \<and>
           ''Event type is required'' \<in> set (ValidationResult.errors v)))"
  by (intro conjI impI) (auto simp: validate_Inr event_validate_Inr)

theorem structural_checks_test_truthiness_witness:
  "Entity.id' user_emptyId = JStr '''' \<and>
   validate accepting_processor user_emptyId 100 =
     (Inr \<lparr>isValid = False, ValidationResult.errors = [''ID is required'']\<rparr>, 100) \<and>
   (\<exists>v. validate accepting_processor user_emptyId 100 = (Inr v, 100) \<and> \<not> isValid v \<and>
        ''ID is required'' \<in> set (ValidationResult.errors v)) \<and>
   eventType loginEvent_noType = JUndefined \<and>
   (\<exists>v. event_validate userLoginValidator loginEvent_noType (100 :: int) = (Inr v, 100) \<and>
        \<not> isValid v \<and> ''Event type is required'' \<in> set (ValidationResult.errors v))"
proof -
  have a: "validator accepting_processor user_emptyId 100 =
      (Inr \<lparr>isValid = True, ValidationResult.errors = []\<rparr>, 100) \<and>
    \<not> truthy (Entity.id' user_emptyId)"
    by code_simp
  have b: "userLoginValidator loginEvent_noType (100 :: int) =
      (Inr \<lparr>isValid = True, ValidationResult.errors = []\<rparr>, 100) \<and>
    \<not> truthy (eventType loginEvent_noType)"
    by code_simp
  have c: "Entity.id' user_emptyId = JStr ''''" "eventType loginEvent_noType = JUndefined"
    "validate accepting_processor user_emptyId 100 =
     (Inr \<lparr>isValid = False, ValidationResult.errors = [''ID is required'']\<rparr>, 100)"
    by code_simp+
  note T = structural_checks_test_truthiness [where P = accepting_processor
      and x = user_emptyId and w = 100 and w' = 100
      and cv = "\<lparr>isValid = True, ValidationResult.errors = []\<rparr>"
      and V = userLoginValidator and y = loginEvent_noType and w'' = 100
      and cv' = "\<lparr>isValid = True, ValidationResult.errors = []\<rparr>"]
  from T [THEN conjunct2, THEN conjunct2, THEN conjunct2, THEN conjunct2, THEN conjunct2,
      THEN conjunct2, THEN conjunct1, THEN mp, OF a]
    T [THEN conjunct2, THEN conjunct2, THEN conjunct2, THEN conjunct2, THEN conjunct2,
      THEN conjunct2, THEN conjunct2, THEN conjunct2, THEN conjunct2, THEN conjunct2,
      THEN mp, OF b]
    c
  show ?thesis by (intro conjI) blast+
qed

end
